theory Spec2Isabelle
  imports Main
begin

section \<open>Python strings\<close>

text \<open>
  A Python \<open>str\<close> is a sequence of Unicode code points, so a string is a list of
  natural numbers here. Literals of the source are written \<open>lit ''...''\<close>.
\<close>

type_synonym pystr = "nat list"

definition lit :: "string \<Rightarrow> pystr" where
  "lit cs = map of_char cs"

definition startswith :: "pystr \<Rightarrow> pystr \<Rightarrow> bool" where
  "startswith s p = (take (length p) s = p)"

definition endswith :: "pystr \<Rightarrow> pystr \<Rightarrow> bool" where
  "endswith s p = (length p \<le> length s \<and> drop (length s - length p) s = p)"

text \<open>\<open>s.split(c)\<close> for a separator of one character: never the empty list.\<close>

fun py_split :: "nat \<Rightarrow> pystr \<Rightarrow> pystr list" where
  "py_split c [] = [[]]"
| "py_split c (x # xs) =
     (if x = c then [] # py_split c xs
      else (case py_split c xs of [] \<Rightarrow> [[x]] | w # ws \<Rightarrow> (x # w) # ws))"

text \<open>\<open>s.rfind(c)\<close>: the last index of \<open>c\<close>, or \<open>-1\<close>.\<close>

definition rfind :: "nat \<Rightarrow> pystr \<Rightarrow> int" where
  "rfind c s =
     (if c \<in> set s
      then int (length s) - 1 - int (length (takeWhile (\<lambda>x. x \<noteq> c) (rev s)))
      else - 1)"

text \<open>\<open>str(n)\<close> for a non-negative integer, as the f-string formats the loop index.\<close>

fun str_of_nat :: "nat \<Rightarrow> pystr" where
  "str_of_nat n = (if n < 10 then [48 + n] else str_of_nat (n div 10) @ [48 + n mod 10])"

declare str_of_nat.simps [simp del]

text \<open>
  \<open>c.isalnum()\<close> follows the Unicode database. The table is written out for the
  code points below 256; beyond them it is the parameter \<open>uni\<close>.
\<close>

definition isalnum :: "(nat \<Rightarrow> bool) \<Rightarrow> nat \<Rightarrow> bool" where
  "isalnum uni c =
     (if c < 128 then (48 \<le> c \<and> c \<le> 57) \<or> (65 \<le> c \<and> c \<le> 90) \<or> (97 \<le> c \<and> c \<le> 122)
      else if c < 256 then
        c \<in> {170, 178, 179, 181, 185, 186, 188, 189, 190}
        \<or> (192 \<le> c \<and> c \<le> 214) \<or> (216 \<le> c \<and> c \<le> 246) \<or> 248 \<le> c
      else uni c)"

text \<open>ASCII lower-casing, as the selector engine compares tag names.\<close>

definition ascii_lower :: "pystr \<Rightarrow> pystr" where
  "ascii_lower s = map (\<lambda>c. if 65 \<le> c \<and> c \<le> 90 then c + 32 else c) s"

section \<open>Paths\<close>

text \<open>\<open>os.path.join(a, b)\<close> and \<open>os.path.splitext(p)\<close>, POSIX flavour.\<close>

definition path_join :: "pystr \<Rightarrow> pystr \<Rightarrow> pystr" where
  "path_join a b =
     (if startswith b (lit ''/'') then b
      else if a = [] \<or> endswith a (lit ''/'') then a @ b
      else a @ lit ''/'' @ b)"

definition splitext :: "pystr \<Rightarrow> pystr \<times> pystr" where
  "splitext p =
     (let sepIndex = rfind 47 p; dotIndex = rfind 46 p in
      if dotIndex > sepIndex
         \<and> list_ex (\<lambda>c. c \<noteq> 46) (take (nat (dotIndex - (sepIndex + 1))) (drop (nat (sepIndex + 1)) p))
      then (take (nat dotIndex) p, drop (nat dotIndex) p)
      else (p, []))"

section \<open>The document tree\<close>

text \<open>
  The tree the HTML parser builds: a tag has a name, its class tokens (the parser keeps
  \<open>class\<close> as a list), its other attributes and its children; text and comments are
  leaves. A document (the \<open>soup\<close>) is the list of its top-level nodes.
\<close>

datatype node =
    Tag (tag_name: pystr) (tag_classes: "pystr list") (tag_attrs: "(pystr \<times> pystr) list") (tag_contents: "node list")
  | NavigableString pystr
  | Comment pystr

type_synonym soup = "node list"

fun descendants :: "node \<Rightarrow> node list" where
  "descendants (Tag n cs as ch) = concat (map (\<lambda>x. x # descendants x) ch)"
| "descendants (NavigableString t) = []"
| "descendants (Comment t) = []"

definition soup_descendants :: "soup \<Rightarrow> node list" where
  "soup_descendants sp = concat (map (\<lambda>x. x # descendants x) sp)"

text \<open>\<open>tag.get(key)\<close>: the attribute's value or \<open>None\<close>.\<close>

fun tag_get :: "node \<Rightarrow> pystr \<Rightarrow> pystr option" where
  "tag_get (Tag n cs as ch) k = map_of as k"
| "tag_get _ k = None"

text \<open>
  \<open>soup.find_all(name)\<close> in document order, and \<open>soup.find_all(name, href=True)\<close>,
  each tag paired with its \<open>link['href']\<close>, which such a tag always has.
\<close>

fun is_tag_named :: "pystr \<Rightarrow> node \<Rightarrow> bool" where
  "is_tag_named nm (Tag n cs as ch) = (n = nm)"
| "is_tag_named nm _ = False"

definition find_all :: "soup \<Rightarrow> pystr \<Rightarrow> node list" where
  "find_all sp nm = filter (is_tag_named nm) (soup_descendants sp)"

definition find_all_href :: "soup \<Rightarrow> pystr \<Rightarrow> (node \<times> pystr) list" where
  "find_all_href sp nm =
     List.map_filter
       (\<lambda>x. if is_tag_named nm x then map_option (Pair x) (tag_get x (lit ''href'')) else None)
       (soup_descendants sp)"

text \<open>\<open>soup.find(name)\<close>: the first such tag or \<open>None\<close>.\<close>

definition soup_find :: "soup \<Rightarrow> pystr \<Rightarrow> node option" where
  "soup_find sp nm = (case find_all sp nm of [] \<Rightarrow> None | x # _ \<Rightarrow> Some x)"

subsection \<open>Selectors\<close>

datatype selector = ClassSel pystr | TypeSel pystr

fun sel_matches :: "selector \<Rightarrow> node \<Rightarrow> bool" where
  "sel_matches (ClassSel c) (Tag n cs as ch) = (c \<in> set cs)"
| "sel_matches (TypeSel t) (Tag n cs as ch) = (ascii_lower n = ascii_lower t)"
| "sel_matches sel _ = False"

definition select_matches :: "selector list \<Rightarrow> node \<Rightarrow> bool" where
  "select_matches sels x = list_ex (\<lambda>sel. sel_matches sel x) sels"

definition select :: "soup \<Rightarrow> selector list \<Rightarrow> node list" where
  "select sp sels = filter (select_matches sels) (soup_descendants sp)"

text \<open>
  \<open>x.decompose()\<close> for every \<open>x\<close> of \<open>soup.select(sels)\<close>: every subtree whose root
  matches is cut out of the tree.
\<close>

fun decompose_in :: "selector list \<Rightarrow> node \<Rightarrow> node" where
  "decompose_in sels (Tag n cs as ch) =
     Tag n cs as (map (decompose_in sels) (filter (\<lambda>x. \<not> select_matches sels x) ch))"
| "decompose_in sels (NavigableString t) = NavigableString t"
| "decompose_in sels (Comment t) = Comment t"

definition decompose_selected :: "selector list \<Rightarrow> soup \<Rightarrow> soup" where
  "decompose_selected sels sp =
     map (decompose_in sels) (filter (\<lambda>x. \<not> select_matches sels x) sp)"

subsection \<open>Classes of the tree's objects\<close>

text \<open>
  \<open>isinstance(x, C)\<close> on the objects of a tree; \<open>Comment\<close> is a subclass of
  \<open>NavigableString\<close>. \<open>soup.Comment\<close> is attribute access on the soup object, which
  the library answers with \<open>soup.find("Comment")\<close>: a tag of that name or \<open>None\<close>.
\<close>

datatype py_class = NoneType | TagClass | NavigableStringClass | CommentClass

fun py_type :: "node option \<Rightarrow> py_class" where
  "py_type None = NoneType"
| "py_type (Some (Tag n cs as ch)) = TagClass"
| "py_type (Some (NavigableString t)) = NavigableStringClass"
| "py_type (Some (Comment t)) = CommentClass"

fun isinstance :: "node \<Rightarrow> py_class \<Rightarrow> bool" where
  "isinstance (Tag n cs as ch) c = (c = TagClass)"
| "isinstance (NavigableString t) c = (c = NavigableStringClass)"
| "isinstance (Comment t) c = (c = CommentClass \<or> c = NavigableStringClass)"

fun is_string :: "node \<Rightarrow> bool" where
  "is_string (Tag n cs as ch) = False"
| "is_string _ = True"

text \<open>
  \<open>x.extract()\<close> for every string \<open>x\<close> of \<open>soup.find_all(string=f)\<close>: the strings
  that \<open>f\<close> accepts are taken out of the tree.
\<close>

fun extract_in :: "(node \<Rightarrow> bool) \<Rightarrow> node \<Rightarrow> node" where
  "extract_in f (Tag n cs as ch) =
     Tag n cs as (map (extract_in f) (filter (\<lambda>x. \<not> (is_string x \<and> f x)) ch))"
| "extract_in f (NavigableString t) = NavigableString t"
| "extract_in f (Comment t) = Comment t"

definition extract_strings :: "(node \<Rightarrow> bool) \<Rightarrow> soup \<Rightarrow> soup" where
  "extract_strings f sp = map (extract_in f) (filter (\<lambda>x. \<not> (is_string x \<and> f x)) sp)"

section \<open>The crawler\<close>

definition USER_AGENT :: pystr where
  "USER_AGENT = lit ''WordSageBot/1.0''"

definition SUBLINK_LIMIT :: nat where
  "SUBLINK_LIMIT = 5"

definition IMAGE_LIMIT :: nat where
  "IMAGE_LIMIT = 5"

text \<open>
  The model follows one thread of control, so the lock around the visited set has no
  counterpart; paths are POSIX paths; a file operation always succeeds. \<open>crawl_page\<close>
  is the function on an interpreter that puts no limit on nested calls,
  \<open>crawl_page_limited\<close> the function on an interpreter that does.
\<close>

text \<open>
  What the program calls and does not define: the HTML parser, \<open>urljoin\<close>, the HTTP
  client and the Unicode table beyond Latin-1. A request is answered from the URL and the
  requests issued before it, so the same URL may be answered differently later.
\<close>

datatype response = Response (status_code: int) (payload: "nat list") | RequestException pystr

record env =
  html_parser :: "pystr \<Rightarrow> soup"
  urljoin :: "pystr \<Rightarrow> pystr \<Rightarrow> pystr"
  requests_get :: "pystr list \<Rightarrow> pystr \<Rightarrow> pystr \<Rightarrow> response"
  unicode_isalnum :: "nat \<Rightarrow> bool"

subsection \<open>safe_folder_name\<close>

definition safe_folder_name :: "env \<Rightarrow> pystr \<Rightarrow> pystr" where
  "safe_folder_name e title =
     map (\<lambda>c. if isalnum (unicode_isalnum e) c \<or> c \<in> set (lit ''_-'') then c else 95) title"

subsection \<open>clean_html\<close>

definition cruft :: "selector list" where
  "cruft =
     [ClassSel (lit ''navbox''), ClassSel (lit ''metadata''), ClassSel (lit ''mw-references-wrap''),
      TypeSel (lit ''script''), TypeSel (lit ''style''), ClassSel (lit ''toc''),
      ClassSel (lit ''infobox''), TypeSel (lit ''header''), TypeSel (lit ''footer''),
      ClassSel (lit ''mw-editsection''), ClassSel (lit ''sistersitebox'')]"

definition clean_html :: "env \<Rightarrow> pystr \<Rightarrow> soup" where
  "clean_html e html =
     (let sp = html_parser e html;
          sp = decompose_selected cruft sp;
          comment_class = py_type (soup_find sp (lit ''Comment''))
      in extract_strings (\<lambda>text. isinstance text comment_class) sp)"

subsection \<open>The crawler's state and its effects\<close>

text \<open>
  The crawler object (\<open>base_dir\<close>, \<open>visited\<close>) and the world it acts on: the URLs
  requested so far, the file-system operations so far and the messages logged so far, each
  in the order it happened. \<open>page.html\<close> holds the serialised tree, kept as the tree.
\<close>

datatype content = Html soup | Bytes "nat list"

datatype fs_op = MakeDirs pystr | WriteFile pystr content

datatype log_msg =
    SavedHtml pystr
  | DownloadedImage pystr pystr
  | ImageFailed pystr pystr
  | SkipVisited pystr
  | Crawling pystr
  | FetchFailed pystr int
  | CrawlError pystr pystr

record state =
  base_dir :: pystr
  visited :: "pystr set"
  requests :: "pystr list"
  fs :: "fs_op list"
  logs :: "log_msg list"

definition log :: "log_msg \<Rightarrow> state \<Rightarrow> state" where
  "log m s = s\<lparr>logs := logs s @ [m]\<rparr>"

definition makedirs :: "pystr \<Rightarrow> state \<Rightarrow> state" where
  "makedirs p s = s\<lparr>fs := fs s @ [MakeDirs p]\<rparr>"

definition write_file :: "pystr \<Rightarrow> content \<Rightarrow> state \<Rightarrow> state" where
  "write_file p c s = s\<lparr>fs := fs s @ [WriteFile p c]\<rparr>"

definition sent :: "pystr \<Rightarrow> state \<Rightarrow> state" where
  "sent url s = s\<lparr>requests := requests s @ [url]\<rparr>"


definition init :: "pystr \<Rightarrow> state" where
  "init base = \<lparr>base_dir = base, visited = {}, requests = [], fs = [MakeDirs base], logs = []\<rparr>"

subsection \<open>save_page\<close>

text \<open>Lines 64 to 67: the image source made absolute.\<close>

definition resolve_src :: "pystr \<Rightarrow> pystr" where
  "resolve_src src =
     (if startswith src (lit ''//'') then lit ''https:'' @ src
      else if startswith src (lit ''/'') then lit ''https://en.wikipedia.org'' @ src
      else src)"

text \<open>Lines 71 and 72: the name of the image file.\<close>

definition img_fname :: "nat \<Rightarrow> pystr \<Rightarrow> pystr" where
  "img_fname i src =
     (let ext = hd (py_split 63 (snd (splitext src)))
      in lit ''img_'' @ str_of_nat i @ ext)"

text \<open>
  The loop over \<open>enumerate(images)\<close>, with \<open>img_count\<close> as it stands before the
  element. A request that raises is caught inside the loop.
\<close>

fun save_images :: "env \<Rightarrow> pystr \<Rightarrow> pystr \<Rightarrow> (nat \<times> node) list \<Rightarrow> nat \<Rightarrow> state \<Rightarrow> state" where
  "save_images e title img_folder [] img_count s = s"
| "save_images e title img_folder ((i, img) # rest) img_count s =
     (if img_count \<ge> IMAGE_LIMIT then s
      else case tag_get img (lit ''src'') of
        None \<Rightarrow> save_images e title img_folder rest img_count s
      | Some src0 \<Rightarrow>
          if src0 = [] then save_images e title img_folder rest img_count s
          else
            let src = resolve_src src0;
                r = requests_get e (requests s) src USER_AGENT;
                s = sent src s
            in (case r of
                  RequestException err \<Rightarrow>
                    save_images e title img_folder rest img_count (log (ImageFailed src err) s)
                | Response st body \<Rightarrow>
                    if st = 200 then
                      let fname = img_fname i src;
                          s = write_file (path_join img_folder fname) (Bytes body) s;
                          s = log (DownloadedImage fname title) s
                      in save_images e title img_folder rest (img_count + 1) s
                    else save_images e title img_folder rest img_count s))"

definition save_page :: "env \<Rightarrow> pystr \<Rightarrow> soup \<Rightarrow> state \<Rightarrow> pystr \<times> state" where
  "save_page e title sp s =
     (let folder = path_join (base_dir s) (safe_folder_name e title);
          s = makedirs folder s;
          html_file = path_join folder (lit ''page.html'');
          s = write_file html_file (Html sp) s;
          s = log (SavedHtml title) s;
          img_folder = path_join folder (lit ''images'');
          s = makedirs img_folder s;
          images = find_all sp (lit ''img'')
      in (folder, save_images e title img_folder (enumerate 0 images) 0 s))"

subsection \<open>crawl_page\<close>

text \<open>
  The loop over the links, given the function that crawls one page. \<open>None\<close> is a crawl
  that has not returned.
\<close>

fun crawl_sublinks ::
  "(pystr \<Rightarrow> int \<Rightarrow> state \<Rightarrow> (pystr option \<times> state) option) \<Rightarrow> int \<Rightarrow> (node \<times> pystr) list
     \<Rightarrow> nat \<Rightarrow> state \<Rightarrow> state option" where
  "crawl_sublinks crawl depth [] count s = Some s"
| "crawl_sublinks crawl depth ((link, href) # links) count s =
     (if startswith href (lit ''/wiki/'') \<and> 58 \<notin> set href then
        if count \<ge> SUBLINK_LIMIT then Some s
        else (case crawl href (depth + 1) s of
                None \<Rightarrow> None
              | Some (r, s') \<Rightarrow> crawl_sublinks crawl depth links (count + 1) s')
      else crawl_sublinks crawl depth links count s)"

text \<open>
  \<open>crawl_page\<close> may recurse without end, so it takes the number of nested calls it may
  use; with none left the result is \<open>None\<close>. A result \<open>Some (r, s)\<close> is the value
  returned (\<open>None\<close> or the folder) and the state after the call.
\<close>

fun crawl_page :: "nat \<Rightarrow> env \<Rightarrow> pystr \<Rightarrow> int \<Rightarrow> state \<Rightarrow> (pystr option \<times> state) option" where
  "crawl_page 0 e url0 depth s = None"
| "crawl_page (Suc n) e url0 depth s =
     (let url = urljoin e (lit ''https://en.wikipedia.org/'') url0 in
      if url \<in> visited s then Some (None, log (SkipVisited url) s)
      else
        let s = s\<lparr>visited := insert url (visited s)\<rparr>;
            s = log (Crawling url) s;
            r = requests_get e (requests s) url USER_AGENT;
            s = sent url s
        in (case r of
              RequestException err \<Rightarrow> Some (None, log (CrawlError url err) s)
            | Response st body \<Rightarrow>
                if st \<noteq> 200 then Some (None, log (FetchFailed url st) s)
                else
                  let sp = clean_html e body;
                      title = last (py_split 47 url);
                      (folder, s) = save_page e title sp s
                  in (case crawl_sublinks (crawl_page n e) depth (find_all_href sp (lit ''a'')) 0 s of
                        None \<Rightarrow> None
                      | Some s \<Rightarrow> Some (Some folder, s))))"

text \<open>
  An interpreter allows only so many nested calls. \<open>crawl_page_limited room\<close> is the
  function when \<open>room\<close> further nested calls of \<open>crawl_page\<close> are left: with none
  left the call on line 107 raises \<open>RecursionError\<close>; the call stands inside the
  \<open>try\<close>, so the handler of lines 109 to 111 logs the error and the call that tried to
  recurse returns \<open>None\<close>. The loop over the links returns the error raised, if any, and
  the state. The frames that the library calls need are not counted. This function always
  returns.
\<close>

definition RecursionError :: pystr where
  "RecursionError = lit ''maximum recursion depth exceeded''"

fun crawl_sublinks_limited ::
  "(pystr \<Rightarrow> int \<Rightarrow> state \<Rightarrow> pystr option \<times> state) option \<Rightarrow> int \<Rightarrow> (node \<times> pystr) list
     \<Rightarrow> nat \<Rightarrow> state \<Rightarrow> pystr option \<times> state" where
  "crawl_sublinks_limited crawl depth [] count s = (None, s)"
| "crawl_sublinks_limited crawl depth ((link, href) # links) count s =
     (if startswith href (lit ''/wiki/'') \<and> 58 \<notin> set href then
        if count \<ge> SUBLINK_LIMIT then (None, s)
        else (case crawl of
                None \<Rightarrow> (Some RecursionError, s)
              | Some call \<Rightarrow>
                  (case call href (depth + 1) s of
                     (r, s') \<Rightarrow> crawl_sublinks_limited crawl depth links (count + 1) s'))
      else crawl_sublinks_limited crawl depth links count s)"

definition crawl_page_body ::
  "(pystr \<Rightarrow> int \<Rightarrow> state \<Rightarrow> pystr option \<times> state) option \<Rightarrow> env \<Rightarrow> pystr \<Rightarrow> int \<Rightarrow> state
     \<Rightarrow> pystr option \<times> state" where
  "crawl_page_body crawl e url0 depth s =
     (let url = urljoin e (lit ''https://en.wikipedia.org/'') url0 in
      if url \<in> visited s then (None, log (SkipVisited url) s)
      else
        let s = s\<lparr>visited := insert url (visited s)\<rparr>;
            s = log (Crawling url) s;
            r = requests_get e (requests s) url USER_AGENT;
            s = sent url s
        in (case r of
              RequestException err \<Rightarrow> (None, log (CrawlError url err) s)
            | Response st body \<Rightarrow>
                if st \<noteq> 200 then (None, log (FetchFailed url st) s)
                else
                  let sp = clean_html e body;
                      title = last (py_split 47 url);
                      (folder, s) = save_page e title sp s
                  in (case crawl_sublinks_limited crawl depth (find_all_href sp (lit ''a'')) 0 s of
                        (Some err, s) \<Rightarrow> (None, log (CrawlError url err) s)
                      | (None, s) \<Rightarrow> (Some folder, s))))"

primrec crawl_page_limited :: "nat \<Rightarrow> env \<Rightarrow> pystr \<Rightarrow> int \<Rightarrow> state \<Rightarrow> pystr option \<times> state" where
  "crawl_page_limited 0 e = crawl_page_body None e"
| "crawl_page_limited (Suc room) e = crawl_page_body (Some (crawl_page_limited room e)) e"

section \<open>The specification's wording\<close>

text \<open>
  The folder name as the specification words it: every character outside
  \<open>[A-Za-z0-9_-]\<close> becomes \<open>_\<close>.
\<close>

definition spec_safe_char :: "nat \<Rightarrow> bool" where
  "spec_safe_char c =
     ((65 \<le> c \<and> c \<le> 90) \<or> (97 \<le> c \<and> c \<le> 122) \<or> (48 \<le> c \<and> c \<le> 57) \<or> c = 95 \<or> c = 45)"

definition spec_safe_folder_name :: "pystr \<Rightarrow> pystr" where
  "spec_safe_folder_name title = map (\<lambda>c. if spec_safe_char c then c else 95) title"

text \<open>
  The links the specification has the crawler recurse into: those whose href starts with
  the article prefix and holds no colon; and what recursing into a list of hrefs, one
  after the other, means.
\<close>

definition spec_crawlable :: "pystr \<Rightarrow> bool" where
  "spec_crawlable href = (startswith href (lit ''/wiki/'') \<and> 58 \<notin> set href)"

fun crawl_each ::
  "(pystr \<Rightarrow> int \<Rightarrow> state \<Rightarrow> (pystr option \<times> state) option) \<Rightarrow> int \<Rightarrow> pystr list \<Rightarrow> state \<Rightarrow> state option" where
  "crawl_each crawl depth [] s = Some s"
| "crawl_each crawl depth (href # hrefs) s =
     (case crawl href (depth + 1) s of
        None \<Rightarrow> None
      | Some (r, s') \<Rightarrow> crawl_each crawl depth hrefs s')"

section \<open>States of a call\<close>

text \<open>
  The URL a call works on, the state once its request has been issued, and the state a
  failed call leaves: the URL visited, one request, two log lines, no file operation.
\<close>

abbreviation absolute :: "env \<Rightarrow> pystr \<Rightarrow> pystr" where
  "absolute e u \<equiv> urljoin e (lit ''https://en.wikipedia.org/'') u"

definition fetched :: "pystr \<Rightarrow> state \<Rightarrow> state" where
  "fetched url s = sent url (log (Crawling url) (s\<lparr>visited := insert url (visited s)\<rparr>))"

definition after_failure :: "pystr \<Rightarrow> log_msg \<Rightarrow> state \<Rightarrow> state" where
  "after_failure url m s = log m (fetched url s)"

text \<open>The folders \<open>save_page\<close> works in: \<open>folder\<close> and \<open>img_folder\<close>.\<close>

definition page_folder :: "env \<Rightarrow> pystr \<Rightarrow> state \<Rightarrow> pystr" where
  "page_folder e title s = path_join (base_dir s) (safe_folder_name e title)"

definition images_folder :: "env \<Rightarrow> pystr \<Rightarrow> state \<Rightarrow> pystr" where
  "images_folder e title s = path_join (page_folder e title s) (lit ''images'')"

section \<open>Example inputs\<close>

text \<open>An environment with no network, and one that serves every request.\<close>

definition plain_env :: env where
  "plain_env =
     \<lparr>html_parser = (\<lambda>html. [NavigableString html]),
      urljoin = (\<lambda>base url. if startswith url (lit ''/'') then butlast base @ url else url),
      requests_get = (\<lambda>history url agent. RequestException (lit ''offline'')),
      unicode_isalnum = (\<lambda>c. False)\<rparr>"

definition commented :: soup where
  "commented = [Tag (lit ''div'') [] [] [Comment (lit '' hidden ''), NavigableString (lit ''shown'')]]"

definition dot_query_img :: node where
  "dot_query_img = Tag (lit ''img'') [] [(lit ''src'', lit ''https://h/a.png?v=1.2'')] []"

definition served_env :: env where
  "served_env =
     plain_env\<lparr>html_parser := (\<lambda>html. commented),
               requests_get := (\<lambda>history url agent. Response 200 [1, 2, 3])\<rparr>"

definition cdn_img :: node where
  "cdn_img = Tag (lit ''img'') [] [(lit ''src'', lit ''//cdn.example/x.png'')] []"

text \<open>A small web: page A links to B (a leaf), to C (answered 404) and to itself.\<close>

definition a_tag :: "pystr \<Rightarrow> node" where
  "a_tag href = Tag (lit ''a'') [] [(lit ''href'', href)] []"

definition page_A :: soup where
  "page_A =
     [Tag (lit ''p'') []  []
        [a_tag (lit ''/wiki/B''), a_tag (lit ''/wiki/File:x''), a_tag (lit ''https://x.org/''),
         Tag (lit ''a'') [] [(lit ''name'', lit ''top'')] [],
         a_tag (lit ''/wiki/C''), a_tag (lit ''/wiki/A'')]]"

definition page_B :: soup where
  "page_B = [Tag (lit ''p'') [] [] [NavigableString (lit ''leaf'')]]"

definition wiki_env :: env where
  "wiki_env =
     plain_env\<lparr>
       html_parser := (\<lambda>html. if html = lit ''A'' then page_A else if html = lit ''B'' then page_B else []),
       requests_get := (\<lambda>history url agent.
          if url = lit ''https://en.wikipedia.org/wiki/A'' then Response 200 (lit ''A'')
          else if url = lit ''https://en.wikipedia.org/wiki/B'' then Response 200 (lit ''B'')
          else if url = lit ''https://en.wikipedia.org/wiki/C'' then Response 404 []
          else RequestException (lit ''unreachable''))\<rparr>"

definition after_A :: state where
  "after_A =
     \<lparr>base_dir = lit ''w'',
      visited = {lit ''https://en.wikipedia.org/wiki/C'', lit ''https://en.wikipedia.org/wiki/B'', lit ''https://en.wikipedia.org/wiki/A''},
      requests = [lit ''https://en.wikipedia.org/wiki/A'', lit ''https://en.wikipedia.org/wiki/B'', lit ''https://en.wikipedia.org/wiki/C''],
      fs = [MakeDirs (lit ''w''),
            MakeDirs (lit ''w/A''), WriteFile (lit ''w/A/page.html'') (Html page_A), MakeDirs (lit ''w/A/images''),
            MakeDirs (lit ''w/B''), WriteFile (lit ''w/B/page.html'') (Html page_B), MakeDirs (lit ''w/B/images'')],
      logs = [Crawling (lit ''https://en.wikipedia.org/wiki/A''), SavedHtml (lit ''A''),
              Crawling (lit ''https://en.wikipedia.org/wiki/B''), SavedHtml (lit ''B''),
              Crawling (lit ''https://en.wikipedia.org/wiki/C''), FetchFailed (lit ''https://en.wikipedia.org/wiki/C'') 404,
              SkipVisited (lit ''https://en.wikipedia.org/wiki/A'')]\<rparr>"

text \<open>Ten links, eight of them to articles, and a crawl function that only notes its calls.\<close>

definition seed_links :: "(node \<times> pystr) list" where
  "seed_links =
     map (\<lambda>h. (a_tag h, h))
       [lit ''/wiki/L1'', lit ''/wiki/L2'', lit ''//x.org/wiki/Z'', lit ''/wiki/L3'', lit ''/wiki/L4'',
        lit ''/wiki/Talk:L4'', lit ''/wiki/L5'', lit ''/wiki/L6'', lit ''/wiki/L7'', lit ''/wiki/L8'']"

definition note_call :: "pystr \<Rightarrow> int \<Rightarrow> state \<Rightarrow> (pystr option \<times> state) option" where
  "note_call href depth s = Some (None, sent href s)"





text \<open>
  A page of eleven images: two have no usable source, one is answered 404 and one request
  times out; and the file operations that saving this page performs.
\<close>

definition flaky_env :: env where
  "flaky_env =
     plain_env\<lparr>requests_get := (\<lambda>history url agent.
        if url = lit ''https://en.wikipedia.org/gone.png'' then Response 404 []
        else if url = lit ''https://en.wikipedia.org/down.png'' then RequestException (lit ''timeout'')
        else Response 200 [7])\<rparr>"

definition img_tag :: "pystr \<Rightarrow> node" where
  "img_tag src = Tag (lit ''img'') [] [(lit ''src'', src)] []"

definition gallery :: soup where
  "gallery =
     [img_tag (lit ''/a.png''), img_tag (lit ''/gone.png''), Tag (lit ''img'') [] [] [],
      img_tag (lit ''/b.png''), img_tag (lit ''/down.png''), img_tag [],
      img_tag (lit ''/c.png''), img_tag (lit ''/d.png''), img_tag (lit ''/e.png''),
      img_tag (lit ''/f.png''), img_tag (lit ''/g.png'')]"

definition gallery_fs :: "fs_op list" where
  "gallery_fs =
     [MakeDirs (lit ''w''), MakeDirs (lit ''w/T''), WriteFile (lit ''w/T/page.html'') (Html gallery),
      MakeDirs (lit ''w/T/images''),
      WriteFile (lit ''w/T/images/img_0.png'') (Bytes [7]),
      WriteFile (lit ''w/T/images/img_3.png'') (Bytes [7]),
      WriteFile (lit ''w/T/images/img_6.png'') (Bytes [7]),
      WriteFile (lit ''w/T/images/img_7.png'') (Bytes [7]),
      WriteFile (lit ''w/T/images/img_8.png'') (Bytes [7])]"

section \<open>Properties\<close>

subsection \<open>Strings\<close>

lemma set_lit_us: "c \<in> set (lit ''_-'') \<longleftrightarrow> c = 95 \<or> c = 45"
  by (auto simp add: lit_def)

subsection \<open>safe_folder_name\<close>

text \<open>
  C7, as stated, fails: \<open>isalnum\<close> accepts letters and digits beyond ASCII, so the
  title \<open>Caf\<close> followed by U+00E9 keeps its last character, where the specification's
  wording turns it into \<open>_\<close>.
\<close>

theorem safe_folder_name_counterexample:
  "safe_folder_name plain_env [67, 97, 102, 233] \<noteq> spec_safe_folder_name [67, 97, 102, 233]"
  by (simp add: safe_folder_name_def spec_safe_folder_name_def spec_safe_char_def isalnum_def plain_env_def)

text \<open>
  C7, amended: the folder name has the title's length; a character is kept when it is in
  \<open>[A-Za-z0-9_-]\<close> or is a non-ASCII character that \<open>isalnum\<close> accepts, and is
  replaced by \<open>_\<close> otherwise. On titles of ASCII characters this is the replacement of
  every character outside \<open>[A-Za-z0-9_-]\<close>.
\<close>

theorem safe_folder_name_chars:
  "length (safe_folder_name e title) = length title
   \<and> (\<forall>i < length title.
        safe_folder_name e title ! i =
          (if spec_safe_char (title ! i) \<or> (128 \<le> title ! i \<and> isalnum (unicode_isalnum e) (title ! i))
           then title ! i else 95))
   \<and> ((\<forall>c \<in> set title. c < 128) \<longrightarrow> safe_folder_name e title = spec_safe_folder_name title)"
  by (auto simp add: safe_folder_name_def spec_safe_folder_name_def spec_safe_char_def isalnum_def set_lit_us)

theorem safe_folder_name_chars_witness:
  "safe_folder_name plain_env (lit ''C++ (a_b-c)'') = lit ''C____a_b-c_''
   \<and> safe_folder_name plain_env [67, 97, 102, 233, 47] ! 3 = 233
   \<and> safe_folder_name plain_env [67, 97, 102, 233, 47] ! 4 = 95"
proof -
  have a: "\<forall>c \<in> set (lit ''C++ (a_b-c)''). c < 128"
    by (simp add: lit_def)
  have "safe_folder_name plain_env (lit ''C++ (a_b-c)'') = spec_safe_folder_name (lit ''C++ (a_b-c)'')"
    using safe_folder_name_chars [of plain_env "lit ''C++ (a_b-c)''"] a by blast
  moreover have "spec_safe_folder_name (lit ''C++ (a_b-c)'') = lit ''C____a_b-c_''"
    by (simp add: spec_safe_folder_name_def spec_safe_char_def lit_def)
  moreover have "safe_folder_name plain_env [67, 97, 102, 233, 47] ! 3 = 233"
    using safe_folder_name_chars [of plain_env "[67, 97, 102, 233, 47]"]
    by (simp add: spec_safe_char_def isalnum_def)
  moreover have "safe_folder_name plain_env [67, 97, 102, 233, 47] ! 4 = 95"
    using safe_folder_name_chars [of plain_env "[67, 97, 102, 233, 47]"]
    by (simp add: spec_safe_char_def isalnum_def)
  ultimately show ?thesis by simp
qed

subsection \<open>clean_html\<close>

lemma extract_in_id: "(\<And>y. is_string y \<Longrightarrow> \<not> f y) \<Longrightarrow> extract_in f x = x"
proof (induction x)
  case (Tag n cs as ch)
  have "filter (\<lambda>x. \<not> (is_string x \<and> f x)) ch = ch"
    using Tag.prems by (simp add: filter_id_conv)
  moreover have "map (extract_in f) ch = ch"
    using Tag by (simp add: map_idI)
  ultimately show ?case by simp
qed simp_all

lemma extract_strings_id: "(\<And>y. is_string y \<Longrightarrow> \<not> f y) \<Longrightarrow> extract_strings f sp = sp"
proof -
  assume a: "\<And>y. is_string y \<Longrightarrow> \<not> f y"
  have "filter (\<lambda>x. \<not> (is_string x \<and> f x)) sp = sp"
    using a by (simp add: filter_id_conv)
  moreover have "map (extract_in f) sp = sp"
    using a by (simp add: map_idI extract_in_id)
  ultimately show ?thesis by (simp add: extract_strings_def)
qed

lemma soup_find_is_tag: "soup_find sp nm = Some x \<Longrightarrow> is_tag_named nm x"
proof -
  assume "soup_find sp nm = Some x"
  then have "x \<in> set (find_all sp nm)"
    by (auto simp add: soup_find_def split: list.splits)
  then show ?thesis by (simp add: find_all_def)
qed

lemma py_type_soup_find: "py_type (soup_find sp nm) = NoneType \<or> py_type (soup_find sp nm) = TagClass"
proof (cases "soup_find sp nm")
  case None
  then show ?thesis by simp
next
  case (Some x)
  then have "is_tag_named nm x" by (rule soup_find_is_tag)
  then show ?thesis using Some by (cases x) simp_all
qed

lemma string_not_instance: "is_string y \<Longrightarrow> c = NoneType \<or> c = TagClass \<Longrightarrow> \<not> isinstance y c"
  by (cases y) auto

text \<open>
  The class that \<open>type(soup.Comment)\<close> evaluates to is never one a string of the tree
  belongs to, so the second loop of \<open>clean_html\<close> takes nothing out: the cleaned tree is
  the parsed tree without the subtrees the selector matched.
\<close>

lemma clean_html_keeps_comments: "clean_html e html = decompose_selected cruft (html_parser e html)"
  unfolding clean_html_def Let_def
  by (rule extract_strings_id) (rule string_not_instance, assumption, rule py_type_soup_find)

lemma select_matches_decompose_in [simp]:
  "select_matches sels (decompose_in sels x) = select_matches sels x"
proof -
  have "sel_matches sel (decompose_in sels x) = sel_matches sel x" for sel
    by (cases x; cases sel) simp_all
  then show ?thesis by (simp add: select_matches_def)
qed

lemma descendants_decompose_in:
  "y \<in> set (descendants (decompose_in sels x)) \<Longrightarrow> \<not> select_matches sels y"
proof (induction x arbitrary: y)
  case (Tag n cs as ch)
  then obtain c where c: "c \<in> set ch" "\<not> select_matches sels c"
    and y: "y = decompose_in sels c \<or> y \<in> set (descendants (decompose_in sels c))"
    by auto
  from y show ?case
  proof
    assume "y = decompose_in sels c"
    then show ?thesis using c by simp
  next
    assume "y \<in> set (descendants (decompose_in sels c))"
    then show ?thesis using Tag.IH c by blast
  qed
qed simp_all

lemma select_decompose_selected: "select (decompose_selected sels sp) sels = []"
proof -
  have "\<not> select_matches sels y" if "y \<in> set (soup_descendants (decompose_selected sels sp))" for y
  proof -
    from that obtain c where c: "c \<in> set sp" "\<not> select_matches sels c"
      and y: "y = decompose_in sels c \<or> y \<in> set (descendants (decompose_in sels c))"
      by (auto simp add: soup_descendants_def decompose_selected_def)
    from y show ?thesis using c descendants_decompose_in by auto
  qed
  then show ?thesis by (simp add: select_def filter_empty_conv)
qed

text \<open>No element of the cleaned tree matches the selector, however the matches nest.\<close>

lemma clean_html_no_cruft: "select (clean_html e html) cruft = []"
  by (simp add: clean_html_keeps_comments select_decompose_selected)

text \<open>
  C3: the code keeps comments. On a page parsed to a \<open>div\<close> holding a comment and a
  text, \<open>clean_html\<close> returns the tree as it was, comment included.
\<close>

theorem clean_html_comment_kept:
  "clean_html served_env (lit ''<div><!-- hidden -->shown</div>'') = commented
   \<and> Comment (lit '' hidden '')
       \<in> set (soup_descendants (clean_html served_env (lit ''<div><!-- hidden -->shown</div>'')))"
  by code_simp

subsection \<open>save_page\<close>

text \<open>
  C5: the extension is cut from the whole URL before the query is dropped. For the
  source \<open>https://h/a.png?v=1.2\<close> the file written is \<open>img_0.2\<close>, not
  \<open>img_0.png\<close>.
\<close>

theorem save_page_dot_query_ext:
  "fs (snd (save_page served_env (lit ''T'') [dot_query_img] (init (lit ''w''))))
     = [MakeDirs (lit ''w''), MakeDirs (lit ''w/T''),
        WriteFile (lit ''w/T/page.html'') (Html [dot_query_img]),
        MakeDirs (lit ''w/T/images''),
        WriteFile (lit ''w/T/images/img_0.2'') (Bytes [1, 2, 3])]"
  by code_simp

text \<open>
  C6: a source \<open>//host/path\<close> becomes \<open>https://host/path\<close>, a source \<open>/path\<close>
  becomes \<open>https://en.wikipedia.org/path\<close>, any other source is unchanged, and the
  rewritten source is the URL requested for the image.
\<close>

theorem resolve_src_cases:
  "resolve_src (lit ''//'' @ hostpath) = lit ''https://'' @ hostpath
   \<and> (\<not> startswith path (lit ''/'') \<longrightarrow>
        resolve_src (lit ''/'' @ path) = lit ''https://en.wikipedia.org/'' @ path)
   \<and> (\<not> startswith src (lit ''/'') \<longrightarrow> resolve_src src = src)
   \<and> (img_count < IMAGE_LIMIT \<and> tag_get img (lit ''src'') = Some src \<and> src \<noteq> [] \<longrightarrow>
        requests (save_images e title img_folder [(i, img)] img_count s) = requests s @ [resolve_src src])"
proof -
  have a: "resolve_src (lit ''//'' @ hostpath) = lit ''https://'' @ hostpath"
    by (simp add: resolve_src_def startswith_def lit_def)
  have b: "resolve_src (lit ''/'' @ path) = lit ''https://en.wikipedia.org/'' @ path"
    if "\<not> startswith path (lit ''/'')"
  proof -
    from that have "\<not> startswith (lit ''/'' @ path) (lit ''//'')"
      by (cases path) (simp_all add: startswith_def lit_def)
    then show ?thesis by (simp add: resolve_src_def startswith_def lit_def)
  qed
  have c: "resolve_src src = src" if "\<not> startswith src (lit ''/'')"
  proof -
    from that have "\<not> startswith src (lit ''//'')"
      by (cases src) (auto simp add: startswith_def lit_def)
    with that show ?thesis by (simp add: resolve_src_def)
  qed
  have d: "requests (save_images e title img_folder [(i, img)] img_count s) = requests s @ [resolve_src src]"
    if "img_count < IMAGE_LIMIT" "tag_get img (lit ''src'') = Some src" "src \<noteq> []"
    using that by (simp add: Let_def sent_def log_def write_file_def split: response.splits)
  from a b c d show ?thesis by blast
qed

theorem resolve_src_cases_witness:
  "resolve_src (lit ''//'' @ lit ''cdn.example/x.png'') = lit ''https://'' @ lit ''cdn.example/x.png''
   \<and> resolve_src (lit ''/'' @ lit ''static/x.png'') = lit ''https://en.wikipedia.org/'' @ lit ''static/x.png''
   \<and> resolve_src (lit ''http://a/x.png'') = lit ''http://a/x.png''
   \<and> requests (save_images served_env (lit ''T'') (lit ''w/T/images'') [(0, cdn_img)] 0 (init (lit ''w'')))
       = requests (init (lit ''w'')) @ [resolve_src (lit ''//cdn.example/x.png'')]"
proof -
  have p: "\<not> startswith (lit ''static/x.png'') (lit ''/'')"
    by (simp add: startswith_def lit_def)
  have q: "\<not> startswith (lit ''http://a/x.png'') (lit ''/'')"
    by (simp add: startswith_def lit_def)
  have r: "0 < IMAGE_LIMIT \<and> tag_get cdn_img (lit ''src'') = Some (lit ''//cdn.example/x.png'')
           \<and> lit ''//cdn.example/x.png'' \<noteq> []"
    by (simp add: IMAGE_LIMIT_def cdn_img_def lit_def)
  show ?thesis
    using p q r
      resolve_src_cases [where hostpath = "lit ''cdn.example/x.png''" and path = "lit ''static/x.png''"
        and src = "lit ''http://a/x.png''"]
      resolve_src_cases [where src = "lit ''//cdn.example/x.png''" and img = cdn_img and img_count = 0
        and e = served_env and title = "lit ''T''" and img_folder = "lit ''w/T/images''" and i = 0
        and s = "init (lit ''w'')"]
    by blast
qed

subsection \<open>The visited set\<close>

lemma log_fields [simp]:
  "base_dir (log m s) = base_dir s" "visited (log m s) = visited s"
  "requests (log m s) = requests s" "fs (log m s) = fs s" "logs (log m s) = logs s @ [m]"
  by (simp_all add: log_def)

lemma makedirs_fields [simp]:
  "base_dir (makedirs p s) = base_dir s" "visited (makedirs p s) = visited s"
  "requests (makedirs p s) = requests s" "fs (makedirs p s) = fs s @ [MakeDirs p]"
  "logs (makedirs p s) = logs s"
  by (simp_all add: makedirs_def)

lemma write_file_fields [simp]:
  "base_dir (write_file p c s) = base_dir s" "visited (write_file p c s) = visited s"
  "requests (write_file p c s) = requests s" "fs (write_file p c s) = fs s @ [WriteFile p c]"
  "logs (write_file p c s) = logs s"
  by (simp_all add: write_file_def)

lemma sent_fields [simp]:
  "base_dir (sent u s) = base_dir s" "visited (sent u s) = visited s"
  "requests (sent u s) = requests s @ [u]" "fs (sent u s) = fs s" "logs (sent u s) = logs s"
  by (simp_all add: sent_def)

lemma save_images_visited [simp]: "visited (save_images e title f xs c s) = visited s"
  by (induction e title f xs c s rule: save_images.induct)
     (simp_all add: Let_def split: option.splits response.splits)

lemma save_images_base_dir [simp]: "base_dir (save_images e title f xs c s) = base_dir s"
  by (induction e title f xs c s rule: save_images.induct)
     (simp_all add: Let_def split: option.splits response.splits)

lemma save_page_visited [simp]: "visited (snd (save_page e title sp s)) = visited s"
  by (simp add: save_page_def Let_def)

lemma save_page_base_dir [simp]: "base_dir (snd (save_page e title sp s)) = base_dir s"
  by (simp add: save_page_def Let_def)

lemma crawl_sublinks_visited:
  assumes "\<And>u d s r s'. crawl u d s = Some (r, s') \<Longrightarrow> visited s \<subseteq> visited s'"
  shows "crawl_sublinks crawl depth links c s = Some s' \<Longrightarrow> visited s \<subseteq> visited s'"
proof (induction links arbitrary: c s)
  case Nil
  then show ?case by simp
next
  case (Cons a links)
  obtain link href where a: "a = (link, href)" by (cases a)
  show ?case
  proof (cases "startswith href (lit ''/wiki/'') \<and> 58 \<notin> set href")
    case False
    with Cons.prems a have "crawl_sublinks crawl depth links c s = Some s'" by auto
    then show ?thesis by (rule Cons.IH)
  next
    case True
    show ?thesis
    proof (cases "c \<ge> SUBLINK_LIMIT")
      case True
      then show ?thesis using Cons.prems a \<open>startswith href (lit ''/wiki/'') \<and> 58 \<notin> set href\<close> by auto
    next
      case False
      with Cons.prems a True obtain r s1 where
        c1: "crawl href (depth + 1) s = Some (r, s1)" and
        c2: "crawl_sublinks crawl depth links (c + 1) s1 = Some s'"
        by (auto split: option.splits)
      from assms [OF c1] Cons.IH [OF c2] show ?thesis by blast
    qed
  qed
qed

lemma crawl_page_visited:
  "crawl_page n e u d s = Some (r, s') \<Longrightarrow>
     visited s \<subseteq> visited s' \<and> urljoin e (lit ''https://en.wikipedia.org/'') u \<in> visited s'"
proof (induction n arbitrary: u d s r s')
  case 0
  then show ?case by simp
next
  case (Suc n)
  let ?url = "urljoin e (lit ''https://en.wikipedia.org/'') u"
  have sub: "\<And>u d s r s'. crawl_page n e u d s = Some (r, s') \<Longrightarrow> visited s \<subseteq> visited s'"
    using Suc.IH by blast
  show ?case
  proof (cases "?url \<in> visited s")
    case True
    then show ?thesis using Suc.prems by (auto simp add: Let_def)
  next
    case False
    let ?s1 = "sent ?url (log (Crawling ?url) (s\<lparr>visited := insert ?url (visited s)\<rparr>))"
    show ?thesis
    proof (cases "requests_get e (requests (log (Crawling ?url) (s\<lparr>visited := insert ?url (visited s)\<rparr>))) ?url USER_AGENT")
      case (RequestException err)
      then show ?thesis using Suc.prems False by (auto simp add: Let_def)
    next
      case (Response st body)
      show ?thesis
      proof (cases "st = 200")
        case False
        then show ?thesis using Suc.prems \<open>?url \<notin> visited s\<close> Response by (auto simp add: Let_def)
      next
        case True
        let ?sp = "clean_html e body"
        let ?s2 = "snd (save_page e (last (py_split 47 ?url)) ?sp ?s1)"
        from Suc.prems \<open>?url \<notin> visited s\<close> Response True
        have "crawl_sublinks (crawl_page n e) d (find_all_href ?sp (lit ''a'')) 0 ?s2 = Some s'"
          by (auto simp add: Let_def split_beta split: option.splits)
        from crawl_sublinks_visited [OF sub this]
        show ?thesis by auto
      qed
    qed
  qed
qed

subsection \<open>crawl_page\<close>

text \<open>
  C1: a call that returns leaves its URL in the visited set, and the visited set of the
  state after a call contains that of the state before. In any later state of the same
  crawler (one whose visited set contains that of the state after the first call) a
  second call on the same URL returns \<open>None\<close> and changes nothing but the log: no
  request is issued and nothing is written.
\<close>

theorem crawl_page_twice:
  "(crawl_page n e u d s = Some (r, s1) \<longrightarrow>
      visited s \<subseteq> visited s1 \<and> urljoin e (lit ''https://en.wikipedia.org/'') u \<in> visited s1)
   \<and> (crawl_page n e u d s = Some (r, s1) \<and> visited s1 \<subseteq> visited s2 \<longrightarrow>
        crawl_page (Suc m) e u d' s2 =
          Some (None, s2\<lparr>logs := logs s2 @ [SkipVisited (urljoin e (lit ''https://en.wikipedia.org/'') u)]\<rparr>))"
proof -
  have "crawl_page (Suc m) e u d' s2 =
          Some (None, s2\<lparr>logs := logs s2 @ [SkipVisited (urljoin e (lit ''https://en.wikipedia.org/'') u)]\<rparr>)"
    if "crawl_page n e u d s = Some (r, s1)" "visited s1 \<subseteq> visited s2"
  proof -
    from that have "urljoin e (lit ''https://en.wikipedia.org/'') u \<in> visited s2"
      using crawl_page_visited by blast
    then show ?thesis by (simp add: Let_def log_def)
  qed
  then show ?thesis using crawl_page_visited by blast
qed



lemma crawl_sublinks_Cons:
  "crawl_sublinks crawl depth ((link, href) # links) c s =
     (if spec_crawlable href then
        if c \<ge> SUBLINK_LIMIT then Some s
        else (case crawl href (depth + 1) s of
                None \<Rightarrow> None
              | Some (r, s') \<Rightarrow> crawl_sublinks crawl depth links (c + 1) s')
      else crawl_sublinks crawl depth links c s)"
  by (simp add: spec_crawlable_def)

lemma crawl_sublinks_take:
  "crawl_sublinks crawl depth links c s =
     crawl_each crawl depth (take (SUBLINK_LIMIT - c) (filter spec_crawlable (map snd links))) s"
proof (induction links arbitrary: c s)
  case Nil
  show ?case by simp
next
  case (Cons a links)
  obtain link href where a: "a = (link, href)" by (cases a)
  show ?case
  proof (cases "spec_crawlable href")
    case False
    then show ?thesis unfolding a crawl_sublinks_Cons using Cons.IH by simp
  next
    case True
    show ?thesis
    proof (cases "c \<ge> SUBLINK_LIMIT")
      case True
      then show ?thesis unfolding a crawl_sublinks_Cons using \<open>spec_crawlable href\<close> by simp
    next
      case False
      then have "SUBLINK_LIMIT - c = Suc (SUBLINK_LIMIT - (c + 1))" by simp
      then show ?thesis unfolding a crawl_sublinks_Cons using True False Cons.IH [of "c + 1"]
        by (simp split: option.splits)
    qed
  qed
qed

lemma crawl_page_A: "crawl_page (Suc (Suc 0)) wiki_env (lit ''/wiki/A'') 0 (init (lit ''w'')) = Some (Some (lit ''w/A''), after_A)"
  by code_simp

theorem crawl_page_twice_witness:
  "crawl_page (Suc (Suc 0)) wiki_env (lit ''/wiki/A'') 0 (init (lit ''w'')) = Some (Some (lit ''w/A''), after_A)
   \<and> visited (init (lit ''w'')) \<subseteq> visited after_A
   \<and> absolute wiki_env (lit ''/wiki/A'') \<in> visited after_A
   \<and> crawl_page (Suc 0) wiki_env (lit ''/wiki/A'') 5 after_A =
       Some (None, after_A\<lparr>logs := logs after_A @ [SkipVisited (absolute wiki_env (lit ''/wiki/A''))]\<rparr>)"
  using crawl_page_A
    crawl_page_twice [where n = "Suc (Suc 0)" and e = wiki_env and u = "lit ''/wiki/A''" and d = 0
      and s = "init (lit ''w'')" and r = "Some (lit ''w/A'')" and ?s1.0 = after_A and ?s2.0 = after_A
      and m = 0 and d' = 5]
  by blast

lemma fetched_fields [simp]:
  "base_dir (fetched url s) = base_dir s" "visited (fetched url s) = insert url (visited s)"
  "requests (fetched url s) = requests s @ [url]" "fs (fetched url s) = fs s"
  "logs (fetched url s) = logs s @ [Crawling url]"
  by (simp_all add: fetched_def)

lemma crawl_page_Suc:
  "crawl_page (Suc n) e u depth s =
     (if absolute e u \<in> visited s then Some (None, log (SkipVisited (absolute e u)) s)
      else case requests_get e (requests s) (absolute e u) USER_AGENT of
             RequestException err \<Rightarrow> Some (None, after_failure (absolute e u) (CrawlError (absolute e u) err) s)
           | Response st body \<Rightarrow>
               if st \<noteq> 200 then Some (None, after_failure (absolute e u) (FetchFailed (absolute e u) st) s)
               else (case crawl_sublinks (crawl_page n e) depth (find_all_href (clean_html e body) (lit ''a'')) 0
                            (snd (save_page e (last (py_split 47 (absolute e u))) (clean_html e body) (fetched (absolute e u) s))) of
                       None \<Rightarrow> None
                     | Some s' \<Rightarrow>
                         Some (Some (fst (save_page e (last (py_split 47 (absolute e u))) (clean_html e body) (fetched (absolute e u) s))), s')))"
  by (simp add: Let_def after_failure_def fetched_def split_beta cong: option.case_cong split: response.splits)

text \<open>
  C8: when the URL is new and its request raises or is answered with a status other than
  200, \<open>crawl_page\<close> returns \<open>None\<close> whatever the nesting allowance, and the state
  after it differs from the state before by the URL in the visited set, the one request
  and two log lines: no directory is made, no file written, no further request issued.
  The call returns normally, so the loop over the links of the parent page goes on with
  the next link, the failed one counted.
\<close>

theorem crawl_page_failure:
  "(absolute e u \<notin> visited s
      \<and> requests_get e (requests s) (absolute e u) USER_AGENT = RequestException err \<longrightarrow>
      crawl_page (Suc n) e u d s = Some (None, after_failure (absolute e u) (CrawlError (absolute e u) err) s))
   \<and> (absolute e u \<notin> visited s
      \<and> requests_get e (requests s) (absolute e u) USER_AGENT = Response st body \<and> st \<noteq> 200 \<longrightarrow>
      crawl_page (Suc n) e u d s = Some (None, after_failure (absolute e u) (FetchFailed (absolute e u) st) s))
   \<and> fs (after_failure url m s) = fs s
   \<and> requests (after_failure url m s) = requests s @ [url]
   \<and> visited (after_failure url m s) = insert url (visited s)
   \<and> logs (after_failure url m s) = logs s @ [Crawling url, m]
   \<and> (spec_crawlable u \<and> c < SUBLINK_LIMIT \<and> absolute e u \<notin> visited s
      \<and> (requests_get e (requests s) (absolute e u) USER_AGENT = RequestException err
          \<or> requests_get e (requests s) (absolute e u) USER_AGENT = Response st body \<and> st \<noteq> 200) \<longrightarrow>
      (\<exists>m'. crawl_sublinks (crawl_page (Suc n) e) d ((link, u) # links) c s =
              crawl_sublinks (crawl_page (Suc n) e) d links (c + 1) (after_failure (absolute e u) m' s)))"
proof -
  have a: "crawl_page (Suc n) e u d s = Some (None, after_failure (absolute e u) (CrawlError (absolute e u) err) s)"
    if "absolute e u \<notin> visited s" "requests_get e (requests s) (absolute e u) USER_AGENT = RequestException err"
    for d
    using that by (simp add: crawl_page_Suc del: crawl_page.simps)
  have b: "crawl_page (Suc n) e u d s = Some (None, after_failure (absolute e u) (FetchFailed (absolute e u) st) s)"
    if "absolute e u \<notin> visited s" "requests_get e (requests s) (absolute e u) USER_AGENT = Response st body" "st \<noteq> 200"
    for d
    using that by (simp add: crawl_page_Suc del: crawl_page.simps)
  have c: "\<exists>m'. crawl_sublinks (crawl_page (Suc n) e) d ((link, u) # links) c s =
              crawl_sublinks (crawl_page (Suc n) e) d links (c + 1) (after_failure (absolute e u) m' s)"
    if "spec_crawlable u" "c < SUBLINK_LIMIT" "absolute e u \<notin> visited s"
       "requests_get e (requests s) (absolute e u) USER_AGENT = RequestException err
          \<or> requests_get e (requests s) (absolute e u) USER_AGENT = Response st body \<and> st \<noteq> 200"
  proof -
    from that(3,4) a [of "d + 1"] b [of "d + 1"]
    obtain m' where "crawl_page (Suc n) e u (d + 1) s = Some (None, after_failure (absolute e u) m' s)"
      by blast
    then have "crawl_sublinks (crawl_page (Suc n) e) d ((link, u) # links) c s =
              crawl_sublinks (crawl_page (Suc n) e) d links (c + 1) (after_failure (absolute e u) m' s)"
      unfolding crawl_sublinks_Cons using that(1,2) by simp
    then show ?thesis ..
  qed
  have d: "fs (after_failure url m s) = fs s \<and> requests (after_failure url m s) = requests s @ [url]
     \<and> visited (after_failure url m s) = insert url (visited s)
     \<and> logs (after_failure url m s) = logs s @ [Crawling url, m]"
    by (simp add: after_failure_def)
  from a b c d show ?thesis by blast
qed

text \<open>
  C2: the loop over the links of a page calls the crawl function on the first
  \<open>SUBLINK_LIMIT\<close> (five) hrefs, in document order, among those that start with
  \<open>/wiki/\<close> and hold no colon, and on no other; a page that was fetched with status
  200 is crawled on by exactly these calls.
\<close>

theorem crawl_sublinks_first_five:
  "crawl_sublinks crawl depth links 0 s =
     crawl_each crawl depth (take SUBLINK_LIMIT (filter spec_crawlable (map snd links))) s
   \<and> SUBLINK_LIMIT = 5
   \<and> (\<forall>href. spec_crawlable href \<longleftrightarrow> startswith href (lit ''/wiki/'') \<and> 58 \<notin> set href)
   \<and> (absolute e u \<notin> visited s
      \<and> requests_get e (requests s) (absolute e u) USER_AGENT = Response 200 body \<longrightarrow>
      crawl_page (Suc n) e u depth s =
        (case crawl_each (crawl_page n e) depth
                (take SUBLINK_LIMIT (filter spec_crawlable (map snd (find_all_href (clean_html e body) (lit ''a'')))))
                (snd (save_page e (last (py_split 47 (absolute e u))) (clean_html e body) (fetched (absolute e u) s))) of
           None \<Rightarrow> None
         | Some s' \<Rightarrow>
             Some (Some (fst (save_page e (last (py_split 47 (absolute e u))) (clean_html e body) (fetched (absolute e u) s))), s')))"
proof -
  have a: "crawl_sublinks crawl depth links 0 s =
     crawl_each crawl depth (take SUBLINK_LIMIT (filter spec_crawlable (map snd links))) s" for crawl links s
    using crawl_sublinks_take [of crawl depth links 0 s] by simp
  have b: "crawl_page (Suc n) e u depth s =
        (case crawl_each (crawl_page n e) depth
                (take SUBLINK_LIMIT (filter spec_crawlable (map snd (find_all_href (clean_html e body) (lit ''a'')))))
                (snd (save_page e (last (py_split 47 (absolute e u))) (clean_html e body) (fetched (absolute e u) s))) of
           None \<Rightarrow> None
         | Some s' \<Rightarrow>
             Some (Some (fst (save_page e (last (py_split 47 (absolute e u))) (clean_html e body) (fetched (absolute e u) s))), s'))"
    if "absolute e u \<notin> visited s" "requests_get e (requests s) (absolute e u) USER_AGENT = Response 200 body"
    using that by (simp add: crawl_page_Suc a del: crawl_page.simps)
  show ?thesis using a b by (simp add: SUBLINK_LIMIT_def spec_crawlable_def)
qed

lemma seed_links_hrefs:
  "take SUBLINK_LIMIT (filter spec_crawlable (map snd seed_links)) =
     [lit ''/wiki/L1'', lit ''/wiki/L2'', lit ''/wiki/L3'', lit ''/wiki/L4'', lit ''/wiki/L5'']"
  by code_simp

lemma seed_links_calls:
  "crawl_each note_call 0 [lit ''/wiki/L1'', lit ''/wiki/L2'', lit ''/wiki/L3'', lit ''/wiki/L4'', lit ''/wiki/L5''] (init (lit ''w''))
     = Some ((init (lit ''w''))\<lparr>requests := [lit ''/wiki/L1'', lit ''/wiki/L2'', lit ''/wiki/L3'', lit ''/wiki/L4'', lit ''/wiki/L5'']\<rparr>)"
  by code_simp

lemma page_A_hrefs:
  "take SUBLINK_LIMIT (filter spec_crawlable (map snd (find_all_href (clean_html wiki_env (lit ''A'')) (lit ''a''))))
     = [lit ''/wiki/B'', lit ''/wiki/C'', lit ''/wiki/A'']"
  by code_simp

lemma page_A_fetch:
  "absolute wiki_env (lit ''/wiki/A'') \<notin> visited (init (lit ''w''))
   \<and> requests_get wiki_env (requests (init (lit ''w''))) (absolute wiki_env (lit ''/wiki/A'')) USER_AGENT = Response 200 (lit ''A'')"
  by code_simp

theorem crawl_sublinks_first_five_witness:
  "crawl_sublinks note_call 0 seed_links 0 (init (lit ''w''))
     = Some ((init (lit ''w''))\<lparr>requests := [lit ''/wiki/L1'', lit ''/wiki/L2'', lit ''/wiki/L3'', lit ''/wiki/L4'', lit ''/wiki/L5'']\<rparr>)
   \<and> absolute wiki_env (lit ''/wiki/A'') \<notin> visited (init (lit ''w''))
   \<and> requests_get wiki_env (requests (init (lit ''w''))) (absolute wiki_env (lit ''/wiki/A'')) USER_AGENT = Response 200 (lit ''A'')
   \<and> crawl_page (Suc (Suc 0)) wiki_env (lit ''/wiki/A'') 0 (init (lit ''w'')) =
       (case crawl_each (crawl_page (Suc 0) wiki_env) 0 [lit ''/wiki/B'', lit ''/wiki/C'', lit ''/wiki/A'']
               (snd (save_page wiki_env (last (py_split 47 (absolute wiki_env (lit ''/wiki/A'')))) (clean_html wiki_env (lit ''A''))
                      (fetched (absolute wiki_env (lit ''/wiki/A'')) (init (lit ''w''))))) of
          None \<Rightarrow> None
        | Some s' \<Rightarrow>
            Some (Some (fst (save_page wiki_env (last (py_split 47 (absolute wiki_env (lit ''/wiki/A'')))) (clean_html wiki_env (lit ''A''))
                      (fetched (absolute wiki_env (lit ''/wiki/A'')) (init (lit ''w''))))), s'))"
proof -
  have "crawl_sublinks note_call 0 seed_links 0 (init (lit ''w'')) =
          crawl_each note_call 0 (take SUBLINK_LIMIT (filter spec_crawlable (map snd seed_links))) (init (lit ''w''))"
    using crawl_sublinks_first_five [where crawl = note_call and depth = 0 and links = seed_links and s = "init (lit ''w'')"]
    by blast
  then have a: "crawl_sublinks note_call 0 seed_links 0 (init (lit ''w''))
     = Some ((init (lit ''w''))\<lparr>requests := [lit ''/wiki/L1'', lit ''/wiki/L2'', lit ''/wiki/L3'', lit ''/wiki/L4'', lit ''/wiki/L5'']\<rparr>)"
    by (simp only: seed_links_hrefs seed_links_calls)
  have "crawl_page (Suc (Suc 0)) wiki_env (lit ''/wiki/A'') 0 (init (lit ''w'')) =
       (case crawl_each (crawl_page (Suc 0) wiki_env) 0
               (take SUBLINK_LIMIT (filter spec_crawlable (map snd (find_all_href (clean_html wiki_env (lit ''A'')) (lit ''a'')))))
               (snd (save_page wiki_env (last (py_split 47 (absolute wiki_env (lit ''/wiki/A'')))) (clean_html wiki_env (lit ''A''))
                      (fetched (absolute wiki_env (lit ''/wiki/A'')) (init (lit ''w''))))) of
          None \<Rightarrow> None
        | Some s' \<Rightarrow>
            Some (Some (fst (save_page wiki_env (last (py_split 47 (absolute wiki_env (lit ''/wiki/A'')))) (clean_html wiki_env (lit ''A''))
                      (fetched (absolute wiki_env (lit ''/wiki/A'')) (init (lit ''w''))))), s'))"
    using page_A_fetch
      crawl_sublinks_first_five [where e = wiki_env and u = "lit ''/wiki/A''" and depth = 0 and s = "init (lit ''w'')"
        and body = "lit ''A''" and n = "Suc 0"]
    by blast
  then have b: "crawl_page (Suc (Suc 0)) wiki_env (lit ''/wiki/A'') 0 (init (lit ''w'')) =
       (case crawl_each (crawl_page (Suc 0) wiki_env) 0 [lit ''/wiki/B'', lit ''/wiki/C'', lit ''/wiki/A'']
               (snd (save_page wiki_env (last (py_split 47 (absolute wiki_env (lit ''/wiki/A'')))) (clean_html wiki_env (lit ''A''))
                      (fetched (absolute wiki_env (lit ''/wiki/A'')) (init (lit ''w''))))) of
          None \<Rightarrow> None
        | Some s' \<Rightarrow>
            Some (Some (fst (save_page wiki_env (last (py_split 47 (absolute wiki_env (lit ''/wiki/A'')))) (clean_html wiki_env (lit ''A''))
                      (fetched (absolute wiki_env (lit ''/wiki/A'')) (init (lit ''w''))))), s'))"
    by (simp only: page_A_hrefs)
  from a b page_A_fetch show ?thesis by blast
qed

lemma page_C_fetch:
  "absolute wiki_env (lit ''/wiki/C'') \<notin> visited (init (lit ''w''))
   \<and> requests_get wiki_env (requests (init (lit ''w''))) (absolute wiki_env (lit ''/wiki/C'')) USER_AGENT = Response 404 []
   \<and> (404 :: int) \<noteq> 200 \<and> spec_crawlable (lit ''/wiki/C'') \<and> 0 < SUBLINK_LIMIT"
  by code_simp

lemma page_D_fetch:
  "absolute wiki_env (lit ''/wiki/D'') \<notin> visited (init (lit ''w''))
   \<and> requests_get wiki_env (requests (init (lit ''w''))) (absolute wiki_env (lit ''/wiki/D'')) USER_AGENT
       = RequestException (lit ''unreachable'')"
  by code_simp

theorem crawl_page_failure_witness:
  "absolute wiki_env (lit ''/wiki/D'') \<notin> visited (init (lit ''w''))
   \<and> requests_get wiki_env (requests (init (lit ''w''))) (absolute wiki_env (lit ''/wiki/D'')) USER_AGENT
       = RequestException (lit ''unreachable'')
   \<and> crawl_page (Suc 0) wiki_env (lit ''/wiki/D'') 0 (init (lit ''w'')) =
       Some (None, after_failure (absolute wiki_env (lit ''/wiki/D''))
                     (CrawlError (absolute wiki_env (lit ''/wiki/D'')) (lit ''unreachable'')) (init (lit ''w'')))
   \<and> absolute wiki_env (lit ''/wiki/C'') \<notin> visited (init (lit ''w''))
   \<and> requests_get wiki_env (requests (init (lit ''w''))) (absolute wiki_env (lit ''/wiki/C'')) USER_AGENT = Response 404 []
   \<and> crawl_page (Suc 0) wiki_env (lit ''/wiki/C'') 0 (init (lit ''w'')) =
       Some (None, after_failure (absolute wiki_env (lit ''/wiki/C''))
                     (FetchFailed (absolute wiki_env (lit ''/wiki/C'')) 404) (init (lit ''w'')))
   \<and> (\<exists>m'. crawl_sublinks (crawl_page (Suc 0) wiki_env) 0
              ((a_tag (lit ''/wiki/C''), lit ''/wiki/C'') # [(a_tag (lit ''/wiki/B''), lit ''/wiki/B'')]) 0 (init (lit ''w'')) =
            crawl_sublinks (crawl_page (Suc 0) wiki_env) 0 [(a_tag (lit ''/wiki/B''), lit ''/wiki/B'')] (0 + 1)
              (after_failure (absolute wiki_env (lit ''/wiki/C'')) m' (init (lit ''w''))))"
  using page_C_fetch page_D_fetch
    crawl_page_failure [where e = wiki_env and u = "lit ''/wiki/D''" and s = "init (lit ''w'')" and n = 0 and d = 0
      and err = "lit ''unreachable''"]
    crawl_page_failure [where e = wiki_env and u = "lit ''/wiki/C''" and s = "init (lit ''w'')" and n = 0 and d = 0
      and st = 404 and body = "[]" and c = 0 and link = "a_tag (lit ''/wiki/C'')"
      and links = "[(a_tag (lit ''/wiki/B''), lit ''/wiki/B'')]"]
  by blast

text \<open>A crawl that returns within some nesting allowance returns the same with more.\<close>

lemma crawl_sublinks_mono:
  assumes "\<And>u d s x. crawl u d s = Some x \<Longrightarrow> crawl' u d s = Some x"
  shows "crawl_sublinks crawl depth links c s = Some s' \<Longrightarrow> crawl_sublinks crawl' depth links c s = Some s'"
proof (induction links arbitrary: c s)
  case Nil
  then show ?case by simp
next
  case (Cons a links)
  obtain link href where a: "a = (link, href)" by (cases a)
  show ?case
  proof (cases "spec_crawlable href \<and> c < SUBLINK_LIMIT")
    case False
    then show ?thesis using Cons unfolding a crawl_sublinks_Cons by auto
  next
    case True
    with Cons.prems obtain r s1 where
      c1: "crawl href (depth + 1) s = Some (r, s1)" and
      c2: "crawl_sublinks crawl depth links (c + 1) s1 = Some s'"
      unfolding a crawl_sublinks_Cons by (auto split: option.splits)
    from assms [OF c1] Cons.IH [OF c2] True show ?thesis
      unfolding a crawl_sublinks_Cons by simp
  qed
qed

lemma crawl_page_more_fuel: "crawl_page n e u d s = Some x \<Longrightarrow> crawl_page (Suc n) e u d s = Some x"
proof (induction n arbitrary: u d s x)
  case 0
  then show ?case by simp
next
  case (Suc n)
  have m: "\<And>links c s s'. crawl_sublinks (crawl_page n e) d links c s = Some s'
             \<Longrightarrow> crawl_sublinks (crawl_page (Suc n) e) d links c s = Some s'"
    by (rule crawl_sublinks_mono [of "crawl_page n e"]) (rule Suc.IH)
  have L: "crawl_page (Suc n) e u d s = Some x \<longleftrightarrow>
     (if absolute e u \<in> visited s then Some (None, log (SkipVisited (absolute e u)) s)
      else case requests_get e (requests s) (absolute e u) USER_AGENT of
             RequestException err \<Rightarrow> Some (None, after_failure (absolute e u) (CrawlError (absolute e u) err) s)
           | Response st body \<Rightarrow>
               if st \<noteq> 200 then Some (None, after_failure (absolute e u) (FetchFailed (absolute e u) st) s)
               else (case crawl_sublinks (crawl_page n e) d (find_all_href (clean_html e body) (lit ''a'')) 0
                            (snd (save_page e (last (py_split 47 (absolute e u))) (clean_html e body) (fetched (absolute e u) s))) of
                       None \<Rightarrow> None
                     | Some s' \<Rightarrow>
                         Some (Some (fst (save_page e (last (py_split 47 (absolute e u))) (clean_html e body) (fetched (absolute e u) s))), s'))) = Some x"
    by (simp only: crawl_page_Suc)
  have R: "crawl_page (Suc (Suc n)) e u d s = Some x \<longleftrightarrow>
     (if absolute e u \<in> visited s then Some (None, log (SkipVisited (absolute e u)) s)
      else case requests_get e (requests s) (absolute e u) USER_AGENT of
             RequestException err \<Rightarrow> Some (None, after_failure (absolute e u) (CrawlError (absolute e u) err) s)
           | Response st body \<Rightarrow>
               if st \<noteq> 200 then Some (None, after_failure (absolute e u) (FetchFailed (absolute e u) st) s)
               else (case crawl_sublinks (crawl_page (Suc n) e) d (find_all_href (clean_html e body) (lit ''a'')) 0
                            (snd (save_page e (last (py_split 47 (absolute e u))) (clean_html e body) (fetched (absolute e u) s))) of
                       None \<Rightarrow> None
                     | Some s' \<Rightarrow>
                         Some (Some (fst (save_page e (last (py_split 47 (absolute e u))) (clean_html e body) (fetched (absolute e u) s))), s'))) = Some x"
    by (simp only: crawl_page_Suc)
  from Suc.prems show ?case
    unfolding L R
    by (auto split: if_splits response.splits option.splits dest: m)
qed









subsection \<open>crawl_page under a limit on nested calls\<close>



lemma crawl_page_limited_body:
  "crawl_page_limited L e u d s =
     crawl_page_body (case L of 0 \<Rightarrow> None | Suc k \<Rightarrow> Some (crawl_page_limited k e)) e u d s"
  by (cases L) simp_all























subsection \<open>Image file names\<close>

text \<open>The index can be read back from a file name: distinct indices give distinct names.\<close>

lemma str_of_nat_digits: "\<forall>c \<in> set (str_of_nat n). 48 \<le> c \<and> c \<le> 57"
proof (induction n rule: str_of_nat.induct)
  case (1 n)
  show ?case
  proof (cases "n < 10")
    case True
    then show ?thesis by (subst str_of_nat.simps) simp
  next
    case False
    have "n mod 10 < 10" by simp
    then have "48 + n mod 10 \<le> 57" by linarith
    with False 1 show ?thesis by (subst str_of_nat.simps) auto
  qed
qed

lemma str_of_nat_value: "foldl (\<lambda>a c. 10 * a + (c - 48)) 0 (str_of_nat n) = n"
proof (induction n rule: str_of_nat.induct)
  case (1 n)
  show ?case
  proof (cases "n < 10")
    case True
    then show ?thesis by (subst str_of_nat.simps) simp
  next
    case False
    with 1 show ?thesis by (subst str_of_nat.simps) simp
  qed
qed

lemma str_of_nat_inj: "str_of_nat n = str_of_nat m \<Longrightarrow> n = m"
  by (metis str_of_nat_value)

lemma rfind_drop:
  assumes "c \<in> set p"
  shows "0 \<le> rfind c p \<and> (\<exists>ys. drop (nat (rfind c p)) p = c # ys)"
proof -
  define t where "t = takeWhile (\<lambda>x. x \<noteq> c) (rev p)"
  define d where "d = dropWhile (\<lambda>x. x \<noteq> c) (rev p)"
  from assms have "d \<noteq> []" by (simp add: d_def dropWhile_eq_Nil_conv)
  moreover have "d \<noteq> [] \<Longrightarrow> hd d = c"
    unfolding d_def using hd_dropWhile [of "\<lambda>x. x \<noteq> c" "rev p"] by blast
  ultimately obtain rest where d: "d = c # rest" by (cases d) auto
  have "rev p = t @ d"
    unfolding t_def d_def by (rule takeWhile_dropWhile_id [symmetric])
  then have "rev (rev p) = rev (t @ c # rest)" using d by simp
  then have p: "p = rev rest @ c # rev t" by simp
  have r: "rfind c p = int (length rest)"
  proof -
    have "rfind c p = int (length p) - 1 - int (length t)"
      using assms by (simp add: rfind_def t_def)
    also have "length p = length rest + 1 + length t" by (subst p) simp
    finally show ?thesis by simp
  qed
  have "drop (length rest) p = c # rev t" by (subst p) simp
  with r show ?thesis by simp
qed

lemma splitext_ext: "snd (splitext p) = [] \<or> (\<exists>ys. snd (splitext p) = 46 # ys)"
proof (cases "46 \<in> set p")
  case True
  from rfind_drop [OF True] show ?thesis
    by (auto simp add: splitext_def Let_def)
next
  case False
  then have "rfind 46 p = - 1" by (simp add: rfind_def)
  moreover have "- 1 \<le> rfind 47 p"
    using length_takeWhile_le [of "\<lambda>x. x \<noteq> 47" "rev p"] by (simp add: rfind_def)
  ultimately show ?thesis by (simp add: splitext_def Let_def)
qed

lemma hd_py_split: "x \<noteq> c \<Longrightarrow> \<exists>zs. hd (py_split c (x # xs)) = x # zs"
  by (cases "py_split c xs") simp_all

lemma img_ext: "hd (py_split 63 (snd (splitext p))) = [] \<or> (\<exists>ys. hd (py_split 63 (snd (splitext p))) = 46 # ys)"
proof -
  from splitext_ext [of p] show ?thesis
  proof
    assume "snd (splitext p) = []"
    then show ?thesis by simp
  next
    assume "\<exists>ys. snd (splitext p) = 46 # ys"
    then obtain ys where "snd (splitext p) = 46 # ys" ..
    then show ?thesis using hd_py_split [of 46 63 ys] by simp
  qed
qed

lemma digits_then_ext:
  assumes "ext = [] \<or> (\<exists>ys. ext = 46 # ys)"
  shows "takeWhile (\<lambda>c. 48 \<le> c \<and> c \<le> 57) (str_of_nat n @ ext) = str_of_nat n"
proof -
  from assms have "takeWhile (\<lambda>c. 48 \<le> c \<and> c \<le> (57::nat)) ext = []" by auto
  then show ?thesis using str_of_nat_digits [of n] by (simp add: takeWhile_append2)
qed

lemma img_fname_inj: "img_fname i a = img_fname j b \<Longrightarrow> i = j"
proof -
  assume "img_fname i a = img_fname j b"
  then have "str_of_nat i @ hd (py_split 63 (snd (splitext a))) = str_of_nat j @ hd (py_split 63 (snd (splitext b)))"
    by (simp add: img_fname_def Let_def)
  then have "takeWhile (\<lambda>c. 48 \<le> c \<and> c \<le> 57) (str_of_nat i @ hd (py_split 63 (snd (splitext a))))
           = takeWhile (\<lambda>c. 48 \<le> c \<and> c \<le> 57) (str_of_nat j @ hd (py_split 63 (snd (splitext b))))"
    by simp
  then have "str_of_nat i = str_of_nat j"
    by (simp only: digits_then_ext [OF img_ext])
  then show ?thesis by (rule str_of_nat_inj)
qed

lemma path_join_img_fname_inj: "path_join f (img_fname i a) = path_join f (img_fname j b) \<Longrightarrow> i = j"
proof -
  have "\<not> startswith (img_fname k x) (lit ''/'')" for k x
    by (simp add: img_fname_def Let_def startswith_def lit_def)
  then have "path_join f (img_fname k x) = (if f = [] \<or> endswith f (lit ''/'') then f else f @ lit ''/'') @ img_fname k x" for k x
    by (simp add: path_join_def)
  then show "path_join f (img_fname i a) = path_join f (img_fname j b) \<Longrightarrow> i = j"
    using img_fname_inj by simp
qed

subsection \<open>The image loop\<close>

lemma save_images_limit: "IMAGE_LIMIT \<le> c \<Longrightarrow> save_images e title f xs c s = s"
  by (cases xs) auto

lemma save_images_nosrc:
  "tag_get img (lit ''src'') = None \<or> tag_get img (lit ''src'') = Some [] \<Longrightarrow>
     save_images e title f ((i, img) # rest) c s = save_images e title f rest c s"
  by (auto simp add: save_images_limit)

lemma save_images_raise:
  "c < IMAGE_LIMIT \<Longrightarrow> tag_get img (lit ''src'') = Some src \<Longrightarrow> src \<noteq> [] \<Longrightarrow>
   requests_get e (requests s) (resolve_src src) USER_AGENT = RequestException err \<Longrightarrow>
     save_images e title f ((i, img) # rest) c s =
       save_images e title f rest c (log (ImageFailed (resolve_src src) err) (sent (resolve_src src) s))"
  by (simp add: Let_def)

lemma save_images_status:
  "c < IMAGE_LIMIT \<Longrightarrow> tag_get img (lit ''src'') = Some src \<Longrightarrow> src \<noteq> [] \<Longrightarrow>
   requests_get e (requests s) (resolve_src src) USER_AGENT = Response st body \<Longrightarrow> st \<noteq> 200 \<Longrightarrow>
     save_images e title f ((i, img) # rest) c s = save_images e title f rest c (sent (resolve_src src) s)"
  by (simp add: Let_def)

lemma save_images_ok:
  "c < IMAGE_LIMIT \<Longrightarrow> tag_get img (lit ''src'') = Some src \<Longrightarrow> src \<noteq> [] \<Longrightarrow>
   requests_get e (requests s) (resolve_src src) USER_AGENT = Response 200 body \<Longrightarrow>
     save_images e title f ((i, img) # rest) c s =
       save_images e title f rest (c + 1)
         (log (DownloadedImage (img_fname i (resolve_src src)) title)
            (write_file (path_join f (img_fname i (resolve_src src))) (Bytes body) (sent (resolve_src src) s)))"
  by (simp add: Let_def)

lemma save_images_fs:
  "\<exists>ws. fs (save_images e title f xs c s) = fs s @ ws
        \<and> length ws \<le> IMAGE_LIMIT - c
        \<and> (\<forall>w \<in> set ws. \<exists>i img src body.
              (i, img) \<in> set xs \<and> tag_get img (lit ''src'') = Some src \<and> src \<noteq> []
              \<and> w = WriteFile (path_join f (img_fname i (resolve_src src))) (Bytes body))"
proof (induction xs arbitrary: c s)
  case Nil
  show ?case by simp
next
  case (Cons x rest)
  obtain i img where x: "x = (i, img)" by (cases x)
  let ?P = "\<lambda>xs ws. \<forall>w \<in> set ws. \<exists>i img src body.
              (i, img) \<in> set xs \<and> tag_get img (lit ''src'') = Some src \<and> src \<noteq> []
              \<and> w = WriteFile (path_join f (img_fname i (resolve_src src))) (Bytes body)"
  have up: "?P (x # rest) ws" if "?P rest ws" for ws
    using that by fastforce
  have same: ?case if "save_images e title f (x # rest) c s = save_images e title f rest c s'" "fs s' = fs s" for s'
  proof -
    from Cons.IH [of c s'] obtain ws where
      "fs (save_images e title f rest c s') = fs s' @ ws" "length ws \<le> IMAGE_LIMIT - c" "?P rest ws"
      by blast
    with up [of ws] that show ?thesis by auto
  qed
  show ?case
  proof (cases "c < IMAGE_LIMIT")
    case False
    then show ?thesis by (simp add: save_images_limit)
  next
    case lim: True
    show ?thesis
    proof (cases "tag_get img (lit ''src'') = None \<or> tag_get img (lit ''src'') = Some []")
      case True
      then show ?thesis using same [of s] save_images_nosrc x by blast
    next
      case False
      then obtain src where src: "tag_get img (lit ''src'') = Some src" "src \<noteq> []" by auto
      show ?thesis
      proof (cases "requests_get e (requests s) (resolve_src src) USER_AGENT")
        case (RequestException err)
        have "save_images e title f (x # rest) c s =
                save_images e title f rest c (log (ImageFailed (resolve_src src) err) (sent (resolve_src src) s))"
          unfolding x using lim src RequestException by (rule save_images_raise)
        then show ?thesis by (rule same) simp
      next
        case (Response st body)
        show ?thesis
        proof (cases "st = 200")
          case False
          have "save_images e title f (x # rest) c s = save_images e title f rest c (sent (resolve_src src) s)"
            unfolding x using lim src Response False by (rule save_images_status)
          then show ?thesis by (rule same) simp
        next
          case True
          let ?w = "WriteFile (path_join f (img_fname i (resolve_src src))) (Bytes body)"
          let ?s' = "log (DownloadedImage (img_fname i (resolve_src src)) title)
               (write_file (path_join f (img_fname i (resolve_src src))) (Bytes body) (sent (resolve_src src) s))"
          have eq: "save_images e title f (x # rest) c s = save_images e title f rest (c + 1) ?s'"
            unfolding x using lim src Response True by (intro save_images_ok) simp_all
          from Cons.IH [of "c + 1" ?s'] obtain ws where
            ws: "fs (save_images e title f rest (c + 1) ?s') = fs ?s' @ ws"
            "length ws \<le> IMAGE_LIMIT - (c + 1)" "?P rest ws"
            by blast
          have "fs (save_images e title f (x # rest) c s) = fs s @ (?w # ws)"
            using ws(1) eq by simp
          moreover have "length (?w # ws) \<le> IMAGE_LIMIT - c" using ws(2) lim by simp
          moreover have "?P (x # rest) (?w # ws)"
            using up [OF ws(3)] src x by auto
          ultimately show ?thesis by blast
        qed
      qed
    qed
  qed
qed

lemma save_page_fs:
  "\<exists>ws. fs (snd (save_page e title sp s)) =
          fs s @ [MakeDirs (page_folder e title s),
                  WriteFile (path_join (page_folder e title s) (lit ''page.html'')) (Html sp),
                  MakeDirs (images_folder e title s)] @ ws
        \<and> length ws \<le> IMAGE_LIMIT
        \<and> (\<forall>w \<in> set ws. \<exists>i src body.
              w = WriteFile (path_join (images_folder e title s) (img_fname i src)) (Bytes body))"
proof -
  let ?s = "makedirs (images_folder e title s)
              (log (SavedHtml title)
                 (write_file (path_join (page_folder e title s) (lit ''page.html'')) (Html sp)
                    (makedirs (page_folder e title s) s)))"
  have sp: "snd (save_page e title sp s) =
              save_images e title (images_folder e title s) (enumerate 0 (find_all sp (lit ''img''))) 0 ?s"
    by (simp add: save_page_def Let_def page_folder_def images_folder_def)
  let ?xs = "enumerate 0 (find_all sp (lit ''img''))"
  from save_images_fs [of e title "images_folder e title s" ?xs 0 ?s]
  obtain ws where ws: "fs (save_images e title (images_folder e title s) ?xs 0 ?s) = fs ?s @ ws"
    "length ws \<le> IMAGE_LIMIT - 0"
    "\<forall>w \<in> set ws. \<exists>i img src body.
              (i, img) \<in> set ?xs \<and> tag_get img (lit ''src'') = Some src \<and> src \<noteq> []
              \<and> w = WriteFile (path_join (images_folder e title s) (img_fname i (resolve_src src))) (Bytes body)"
    by blast
  from ws(3) have "\<forall>w \<in> set ws. \<exists>i src body. w = WriteFile (path_join (images_folder e title s) (img_fname i src)) (Bytes body)"
    by blast
  moreover have "fs (snd (save_page e title sp s)) =
          fs s @ [MakeDirs (page_folder e title s),
                  WriteFile (path_join (page_folder e title s) (lit ''page.html'')) (Html sp),
                  MakeDirs (images_folder e title s)] @ ws"
    using ws(1) sp by simp
  moreover have "length ws \<le> IMAGE_LIMIT" using ws(2) by simp
  ultimately show ?thesis by blast
qed

text \<open>
  C4: saving a page makes the folder, writes \<open>page.html\<close>, makes \<open>images\<close> and
  then writes at most five files, all of them image files in \<open>images\<close>, however many
  \<open>img\<close> tags the tree has. A request that raises or is answered with another status
  than 200 leaves the count of downloads as it was and the loop goes on; a download counts
  one; and once the count has reached the limit the loop does nothing more.
\<close>

theorem save_page_image_cap:
  "(\<exists>ws. fs (snd (save_page e title sp s)) =
          fs s @ [MakeDirs (page_folder e title s),
                  WriteFile (path_join (page_folder e title s) (lit ''page.html'')) (Html sp),
                  MakeDirs (images_folder e title s)] @ ws
        \<and> length ws \<le> 5
        \<and> (\<forall>w \<in> set ws. \<exists>i src body.
              w = WriteFile (path_join (images_folder e title s) (img_fname i src)) (Bytes body)))
   \<and> (c < IMAGE_LIMIT \<and> tag_get img (lit ''src'') = Some src \<and> src \<noteq> []
        \<and> requests_get e (requests s) (resolve_src src) USER_AGENT = RequestException err \<longrightarrow>
      save_images e title f ((i, img) # rest) c s =
        save_images e title f rest c (log (ImageFailed (resolve_src src) err) (sent (resolve_src src) s)))
   \<and> (c < IMAGE_LIMIT \<and> tag_get img (lit ''src'') = Some src \<and> src \<noteq> []
        \<and> requests_get e (requests s) (resolve_src src) USER_AGENT = Response st body \<and> st \<noteq> 200 \<longrightarrow>
      save_images e title f ((i, img) # rest) c s = save_images e title f rest c (sent (resolve_src src) s))
   \<and> (c < IMAGE_LIMIT \<and> tag_get img (lit ''src'') = Some src \<and> src \<noteq> []
        \<and> requests_get e (requests s) (resolve_src src) USER_AGENT = Response 200 body \<longrightarrow>
      save_images e title f ((i, img) # rest) c s =
        save_images e title f rest (c + 1)
          (log (DownloadedImage (img_fname i (resolve_src src)) title)
             (write_file (path_join f (img_fname i (resolve_src src))) (Bytes body) (sent (resolve_src src) s))))
   \<and> (IMAGE_LIMIT \<le> c \<longrightarrow> save_images e title f xs c s = s)"
proof -
  have a: "\<exists>ws. fs (snd (save_page e title sp s)) =
          fs s @ [MakeDirs (page_folder e title s),
                  WriteFile (path_join (page_folder e title s) (lit ''page.html'')) (Html sp),
                  MakeDirs (images_folder e title s)] @ ws
        \<and> length ws \<le> 5
        \<and> (\<forall>w \<in> set ws. \<exists>i src body.
              w = WriteFile (path_join (images_folder e title s) (img_fname i src)) (Bytes body))"
    using save_page_fs [of e title sp s] by (simp only: IMAGE_LIMIT_def)
  show ?thesis
    by (intro conjI impI a; (elim conjE)?;
        (rule save_images_raise | rule save_images_status | rule save_images_ok | rule save_images_limit);
        assumption)
qed

lemma in_enumerate_0: "(j, x) \<in> set (enumerate 0 xs) \<longleftrightarrow> j < length xs \<and> xs ! j = x"
  by (simp add: in_set_enumerate_eq)

text \<open>
  C10: an \<open>img\<close> whose \<open>src\<close> is missing or empty is passed over with the state
  unchanged (no request, no file), and the images after it keep their own positions.
  For a list of images numbered from 0, every file the loop writes is named after the
  position of an image that has a source, and no file is named after the position \<open>k\<close>
  of an image that has none.
\<close>

theorem save_images_missing_src:
  "((tag_get img (lit ''src'') = None \<or> tag_get img (lit ''src'') = Some []) \<longrightarrow>
      save_images e title f (enumerate i (img # rest)) c s = save_images e title f (enumerate (Suc i) rest) c s)
   \<and> (k < length imgs
       \<and> (tag_get (imgs ! k) (lit ''src'') = None \<or> tag_get (imgs ! k) (lit ''src'') = Some []) \<longrightarrow>
      (\<exists>ws. fs (save_images e title f (enumerate 0 imgs) c s) = fs s @ ws
            \<and> (\<forall>w \<in> set ws. \<exists>j src body.
                  j < length imgs \<and> j \<noteq> k \<and> tag_get (imgs ! j) (lit ''src'') = Some src \<and> src \<noteq> []
                  \<and> w = WriteFile (path_join f (img_fname j (resolve_src src))) (Bytes body))
            \<and> (\<forall>src body. WriteFile (path_join f (img_fname k src)) body \<notin> set ws)))"
proof -
  have a: "save_images e title f (enumerate i (img # rest)) c s = save_images e title f (enumerate (Suc i) rest) c s"
    if "tag_get img (lit ''src'') = None \<or> tag_get img (lit ''src'') = Some []"
    using that by (simp add: save_images_nosrc del: save_images.simps)
  have b: "\<exists>ws. fs (save_images e title f (enumerate 0 imgs) c s) = fs s @ ws
            \<and> (\<forall>w \<in> set ws. \<exists>j src body.
                  j < length imgs \<and> j \<noteq> k \<and> tag_get (imgs ! j) (lit ''src'') = Some src \<and> src \<noteq> []
                  \<and> w = WriteFile (path_join f (img_fname j (resolve_src src))) (Bytes body))
            \<and> (\<forall>src body. WriteFile (path_join f (img_fname k src)) body \<notin> set ws)"
    if k: "tag_get (imgs ! k) (lit ''src'') = None \<or> tag_get (imgs ! k) (lit ''src'') = Some []"
  proof -
    from save_images_fs [of e title f "enumerate 0 imgs" c s] obtain ws where
      ws: "fs (save_images e title f (enumerate 0 imgs) c s) = fs s @ ws"
      and all: "\<forall>w \<in> set ws. \<exists>j img src body.
              (j, img) \<in> set (enumerate 0 imgs) \<and> tag_get img (lit ''src'') = Some src \<and> src \<noteq> []
              \<and> w = WriteFile (path_join f (img_fname j (resolve_src src))) (Bytes body)"
      by blast
    have each: "\<exists>j src body.
                  j < length imgs \<and> j \<noteq> k \<and> tag_get (imgs ! j) (lit ''src'') = Some src \<and> src \<noteq> []
                  \<and> w = WriteFile (path_join f (img_fname j (resolve_src src))) (Bytes body)"
      if "w \<in> set ws" for w
    proof -
      from all that obtain j img src body where
        j: "(j, img) \<in> set (enumerate 0 imgs)" "tag_get img (lit ''src'') = Some src" "src \<noteq> []"
        "w = WriteFile (path_join f (img_fname j (resolve_src src))) (Bytes body)"
        by blast
      from j(1) have "j < length imgs" "imgs ! j = img" by (simp_all add: in_enumerate_0)
      moreover from this j(2,3) k have "j \<noteq> k" by auto
      ultimately show ?thesis using j by blast
    qed
    have "WriteFile (path_join f (img_fname k src)) body \<notin> set ws" for src body
    proof
      assume "WriteFile (path_join f (img_fname k src)) body \<in> set ws"
      from each [OF this] obtain j src' where "j \<noteq> k"
        "path_join f (img_fname k src) = path_join f (img_fname j (resolve_src src'))"
        by auto
      then show False using path_join_img_fname_inj by blast
    qed
    with ws each show ?thesis by blast
  qed
  from a b show ?thesis by blast
qed

lemma gallery_saved: "fs (snd (save_page flaky_env (lit ''T'') gallery (init (lit ''w'')))) = gallery_fs"
  by code_simp

lemma gallery_down:
  "0 < IMAGE_LIMIT \<and> tag_get (img_tag (lit ''/down.png'')) (lit ''src'') = Some (lit ''/down.png'')
   \<and> lit ''/down.png'' \<noteq> []
   \<and> requests_get flaky_env (requests (init (lit ''w''))) (resolve_src (lit ''/down.png'')) USER_AGENT
       = RequestException (lit ''timeout'')"
  by code_simp

lemma gallery_gone:
  "0 < IMAGE_LIMIT \<and> tag_get (img_tag (lit ''/gone.png'')) (lit ''src'') = Some (lit ''/gone.png'')
   \<and> lit ''/gone.png'' \<noteq> []
   \<and> requests_get flaky_env (requests (init (lit ''w''))) (resolve_src (lit ''/gone.png'')) USER_AGENT
       = Response 404 []
   \<and> (404 :: int) \<noteq> 200"
  by code_simp

lemma gallery_a:
  "0 < IMAGE_LIMIT \<and> tag_get (img_tag (lit ''/a.png'')) (lit ''src'') = Some (lit ''/a.png'')
   \<and> lit ''/a.png'' \<noteq> []
   \<and> requests_get flaky_env (requests (init (lit ''w''))) (resolve_src (lit ''/a.png'')) USER_AGENT
       = Response 200 [7]"
  by code_simp

lemma gallery_limit: "IMAGE_LIMIT \<le> 5"
  by (simp add: IMAGE_LIMIT_def)

theorem save_page_image_cap_witness:
  "(\<exists>ws. fs (snd (save_page flaky_env (lit ''T'') gallery (init (lit ''w'')))) =
          fs (init (lit ''w'')) @
            [MakeDirs (page_folder flaky_env (lit ''T'') (init (lit ''w''))),
             WriteFile (path_join (page_folder flaky_env (lit ''T'') (init (lit ''w''))) (lit ''page.html'')) (Html gallery),
             MakeDirs (images_folder flaky_env (lit ''T'') (init (lit ''w'')))] @ ws
        \<and> length ws \<le> 5
        \<and> (\<forall>w \<in> set ws. \<exists>i src body.
              w = WriteFile (path_join (images_folder flaky_env (lit ''T'') (init (lit ''w''))) (img_fname i src)) (Bytes body)))
   \<and> fs (snd (save_page flaky_env (lit ''T'') gallery (init (lit ''w'')))) = gallery_fs
   \<and> save_images flaky_env (lit ''T'') (lit ''w/T/images'') ((4, img_tag (lit ''/down.png'')) # []) 0 (init (lit ''w'')) =
       save_images flaky_env (lit ''T'') (lit ''w/T/images'') [] 0
         (log (ImageFailed (resolve_src (lit ''/down.png'')) (lit ''timeout'')) (sent (resolve_src (lit ''/down.png'')) (init (lit ''w''))))
   \<and> save_images flaky_env (lit ''T'') (lit ''w/T/images'') ((1, img_tag (lit ''/gone.png'')) # []) 0 (init (lit ''w'')) =
       save_images flaky_env (lit ''T'') (lit ''w/T/images'') [] 0 (sent (resolve_src (lit ''/gone.png'')) (init (lit ''w'')))
   \<and> save_images flaky_env (lit ''T'') (lit ''w/T/images'') ((0, img_tag (lit ''/a.png'')) # []) 0 (init (lit ''w'')) =
       save_images flaky_env (lit ''T'') (lit ''w/T/images'') [] (0 + 1)
         (log (DownloadedImage (img_fname 0 (resolve_src (lit ''/a.png''))) (lit ''T''))
            (write_file (path_join (lit ''w/T/images'') (img_fname 0 (resolve_src (lit ''/a.png'')))) (Bytes [7])
               (sent (resolve_src (lit ''/a.png'')) (init (lit ''w'')))))
   \<and> save_images flaky_env (lit ''T'') (lit ''w/T/images'') (enumerate 0 gallery) 5 (init (lit ''w'')) = init (lit ''w'')"
proof -
  note cap = save_page_image_cap [where e = flaky_env and title = "lit ''T''" and s = "init (lit ''w'')"
      and f = "lit ''w/T/images''"]
  have a: "\<exists>ws. fs (snd (save_page flaky_env (lit ''T'') gallery (init (lit ''w'')))) =
          fs (init (lit ''w'')) @
            [MakeDirs (page_folder flaky_env (lit ''T'') (init (lit ''w''))),
             WriteFile (path_join (page_folder flaky_env (lit ''T'') (init (lit ''w''))) (lit ''page.html'')) (Html gallery),
             MakeDirs (images_folder flaky_env (lit ''T'') (init (lit ''w'')))] @ ws
        \<and> length ws \<le> 5
        \<and> (\<forall>w \<in> set ws. \<exists>i src body.
              w = WriteFile (path_join (images_folder flaky_env (lit ''T'') (init (lit ''w''))) (img_fname i src)) (Bytes body))"
    using cap [where sp = gallery] by (rule conjunct1)
  have b: "save_images flaky_env (lit ''T'') (lit ''w/T/images'') ((4, img_tag (lit ''/down.png'')) # []) 0 (init (lit ''w'')) =
       save_images flaky_env (lit ''T'') (lit ''w/T/images'') [] 0
         (log (ImageFailed (resolve_src (lit ''/down.png'')) (lit ''timeout'')) (sent (resolve_src (lit ''/down.png'')) (init (lit ''w''))))"
    using gallery_down
      cap [where c = 0 and img = "img_tag (lit ''/down.png'')" and src = "lit ''/down.png''" and err = "lit ''timeout''"
        and i = 4 and rest = "[]", THEN conjunct2, THEN conjunct1]
    by (rule mp [rotated])
  have c: "save_images flaky_env (lit ''T'') (lit ''w/T/images'') ((1, img_tag (lit ''/gone.png'')) # []) 0 (init (lit ''w'')) =
       save_images flaky_env (lit ''T'') (lit ''w/T/images'') [] 0 (sent (resolve_src (lit ''/gone.png'')) (init (lit ''w'')))"
    using gallery_gone
      cap [where c = 0 and img = "img_tag (lit ''/gone.png'')" and src = "lit ''/gone.png''" and st = 404 and body = "[]"
        and i = 1 and rest = "[]", THEN conjunct2, THEN conjunct2, THEN conjunct1]
    by (rule mp [rotated])
  have d: "save_images flaky_env (lit ''T'') (lit ''w/T/images'') ((0, img_tag (lit ''/a.png'')) # []) 0 (init (lit ''w'')) =
       save_images flaky_env (lit ''T'') (lit ''w/T/images'') [] (0 + 1)
         (log (DownloadedImage (img_fname 0 (resolve_src (lit ''/a.png''))) (lit ''T''))
            (write_file (path_join (lit ''w/T/images'') (img_fname 0 (resolve_src (lit ''/a.png'')))) (Bytes [7])
               (sent (resolve_src (lit ''/a.png'')) (init (lit ''w'')))))"
    using gallery_a
      cap [where c = 0 and img = "img_tag (lit ''/a.png'')" and src = "lit ''/a.png''" and body = "[7]"
        and i = 0 and rest = "[]", THEN conjunct2, THEN conjunct2, THEN conjunct2, THEN conjunct1]
    by (rule mp [rotated])
  have e: "save_images flaky_env (lit ''T'') (lit ''w/T/images'') (enumerate 0 gallery) 5 (init (lit ''w'')) = init (lit ''w'')"
    using gallery_limit
      cap [where c = 5 and xs = "enumerate 0 gallery", THEN conjunct2, THEN conjunct2, THEN conjunct2, THEN conjunct2]
    by (rule mp [rotated])
  from a gallery_saved b c d e show ?thesis by (intro conjI)
qed

lemma gallery_2: "2 < length gallery \<and> tag_get (gallery ! 2) (lit ''src'') = None"
  by code_simp

lemma gallery_5: "tag_get (img_tag []) (lit ''src'') = Some []"
  by code_simp

theorem save_images_missing_src_witness:
  "tag_get (img_tag []) (lit ''src'') = Some []
   \<and> save_images flaky_env (lit ''T'') (lit ''w/T/images'') (enumerate 5 (img_tag [] # [img_tag (lit ''/c.png'')])) 0 (init (lit ''w''))
       = save_images flaky_env (lit ''T'') (lit ''w/T/images'') (enumerate (Suc 5) [img_tag (lit ''/c.png'')]) 0 (init (lit ''w''))
   \<and> 2 < length gallery \<and> tag_get (gallery ! 2) (lit ''src'') = None
   \<and> (\<exists>ws. fs (save_images flaky_env (lit ''T'') (lit ''w/T/images'') (enumerate 0 gallery) 0 (init (lit ''w''))) = fs (init (lit ''w'')) @ ws
            \<and> (\<forall>w \<in> set ws. \<exists>j src body.
                  j < length gallery \<and> j \<noteq> 2 \<and> tag_get (gallery ! j) (lit ''src'') = Some src \<and> src \<noteq> []
                  \<and> w = WriteFile (path_join (lit ''w/T/images'') (img_fname j (resolve_src src))) (Bytes body))
            \<and> (\<forall>src body. WriteFile (path_join (lit ''w/T/images'') (img_fname 2 src)) body \<notin> set ws))"
  using gallery_2 gallery_5
    save_images_missing_src [where img = "img_tag []" and e = flaky_env and title = "lit ''T''" and f = "lit ''w/T/images''"
      and i = 5 and rest = "[img_tag (lit ''/c.png'')]" and c = 0 and s = "init (lit ''w'')" and k = 2 and imgs = gallery]
  by blast

end
